theory Spec2Isabelle
  imports Complex_Main "HOL-Library.Product_Lexorder"
begin

section \<open>Values, tables and errors\<close>

text \<open>
  The preprocessing module works on three kinds of data: configuration values (what a
  feature's configuration dictionary holds), tables (pandas data frames) and the
  exceptions its methods raise.  Python floats are idealised as reals; a missing entry
  of a table (NaN) is a cell of its own.
\<close>

datatype pyval =
    VNone
  | VBool bool
  | VInt int
  | VFloat real
  | VStr string
  | VList "pyval list"

datatype cell = Num real | NaN | Str string

type_synonym column = "cell list"

text \<open>A data frame: its columns in order, each under its name.\<close>

type_synonym table = "(string \<times> column) list"

text \<open>What a scikit-learn transformer returns: the columns without their names.\<close>

type_synonym matrix = "column list"

datatype error =
    KeyError string
  | ValueError
  | TypeError
  | IndexError
  | AttributeError
  | NotFittedError
  | NotModelled

text \<open>
  \<open>NotModelled\<close> marks an input this model does not follow the libraries on (for
  instance more than two clip bounds); it is not a statement that Python raises there.
\<close>

text \<open>
  A Python dictionary keeps its keys in insertion order, and the action plan enumerates
  them, so a dictionary is an association list with distinct keys.
\<close>

type_synonym 'v dict = "(string \<times> 'v) list"

definition has_key :: "'v dict \<Rightarrow> string \<Rightarrow> bool" where
  "has_key d k = (k \<in> set (map fst d))"

definition dict_get :: "'v dict \<Rightarrow> string \<Rightarrow> error + 'v" where
  "dict_get d k = (case map_of d k of None \<Rightarrow> Inl (KeyError k) | Some v \<Rightarrow> Inr v)"

text \<open>\<open>d[k] = v\<close>: an existing key keeps its position, a new key goes last.\<close>

fun dict_set :: "'v dict \<Rightarrow> string \<Rightarrow> 'v \<Rightarrow> 'v dict" where
  "dict_set [] k v = [(k, v)]"
| "dict_set ((k', v') # d) k v = (if k' = k then (k, v) # d else (k', v') # dict_set d k v)"

section \<open>The libraries the module calls\<close>

text \<open>
  The module calls Python built-ins, numpy, pandas and scikit-learn.  What the model
  needs of them and cannot take from the module's own text is a parameter: every
  function below that reaches a library takes the record \<open>L\<close>.
\<close>

datatype np_function = np_log | np_log10 | np_log1p | np_exp | np_square | np_sqrt | lambda_x_x

datatype inner_estimator =
    SimpleImputer string pyval
  | MinMaxScaler
  | StandardScaler
  | RobustScaler
  | KBinsDiscretizer string int
  | InnerIdentity

record pylib =
  py_str :: "pyval \<Rightarrow> string"
  py_float :: "string \<Rightarrow> real option"
  py_int :: "string \<Rightarrow> int option"
  pd_astype :: "string \<Rightarrow> column \<Rightarrow> error + column"
  np_apply :: "np_function \<Rightarrow> column \<Rightarrow> error + column"
  sk_fit :: "inner_estimator \<Rightarrow> table \<Rightarrow> error + (table \<Rightarrow> error + matrix)"

text \<open>\<open>str(value)\<close>: a string is itself; the text of any other value is the library's.\<close>

definition str_of :: "pylib \<Rightarrow> pyval \<Rightarrow> string" where
  "str_of L v = (case v of VStr s \<Rightarrow> s | _ \<Rightarrow> py_str L v)"

text \<open>\<open>s.split(":")\<close>: always at least one part.\<close>

fun split_colon :: "string \<Rightarrow> string list" where
  "split_colon [] = [[]]"
| "split_colon (c # cs) =
     (if c = CHR '':'' then [] # split_colon cs
      else (case split_colon cs of
              [] \<Rightarrow> [[c]]
            | w # ws \<Rightarrow> (c # w) # ws))"

section \<open>Elementary transforms\<close>

subsection \<open>FeatureTransformer\<close>

text \<open>
  \<open>FeatureTransformer.__interpret_transformation\<close>: the chain of comparisons of the
  name with the seven supported ones, and the \<open>ValueError\<close> of the last branch.  The
  name comes from the configuration, so it is any configuration value.
\<close>

definition interpret_transformation :: "pyval \<Rightarrow> error + np_function" where
  "interpret_transformation transformation =
     (if transformation = VStr ''log'' then Inr np_log
      else if transformation = VStr ''log10'' then Inr np_log10
      else if transformation = VStr ''log1p'' then Inr np_log1p
      else if transformation = VStr ''exp'' then Inr np_exp
      else if transformation = VStr ''square'' then Inr np_square
      else if transformation = VStr ''sqrt'' then Inr np_sqrt
      else if transformation = VStr ''identity'' then Inr lambda_x_x
      else Inl ValueError)"

text \<open>
  The objects the step interpreter builds, each with the attributes its constructor
  sets.  \<open>FeatureImputer.imputer\<close> is \<open>None\<close> until \<open>fit\<close>, so it is not a field here.
\<close>

datatype transformer =
    Identity
  | FeatureTransformer pyval np_function
  | FeatureClipper pyval
  | FeatureImputer string pyval
  | FeatureScaler pyval inner_estimator
  | FeatureWeigher pyval
  | FeatureDiscretizer string int inner_estimator

text \<open>\<open>FeatureTransformer.__init__\<close>: stores the name and the function interpreted from it.\<close>

definition FeatureTransformer_init :: "pyval \<Rightarrow> error + transformer" where
  "FeatureTransformer_init transformation =
     (case interpret_transformation transformation of
        Inl e \<Rightarrow> Inl e
      | Inr f \<Rightarrow> Inr (FeatureTransformer transformation f))"

subsection \<open>FeatureClipper\<close>

text \<open>
  \<open>X.clip(*self.limits)\<close>.  A bound is a number or \<open>None\<close> (no bound on that side).
  pandas orders two scalar bounds first (\<open>lower, upper = min(lower, upper), max(lower,
  upper)\<close>), then replaces a value above the upper bound by it, then a value below the
  lower bound by it; a missing entry stays missing, and comparing a string with a number
  raises \<open>TypeError\<close>.
\<close>

definition py_number :: "pyval \<Rightarrow> real option" where
  "py_number v =
     (case v of
        VInt i \<Rightarrow> Some (real_of_int i)
      | VFloat r \<Rightarrow> Some r
      | VBool b \<Rightarrow> Some (if b then 1 else 0)
      | _ \<Rightarrow> None)"

definition clip_bound :: "pyval \<Rightarrow> error + real option" where
  "clip_bound v =
     (case v of
        VNone \<Rightarrow> Inr None
      | _ \<Rightarrow> (case py_number v of None \<Rightarrow> Inl TypeError | Some r \<Rightarrow> Inr (Some r)))"

definition clip_upper :: "real option \<Rightarrow> real \<Rightarrow> real" where
  "clip_upper upper x = (case upper of None \<Rightarrow> x | Some u \<Rightarrow> (if x \<le> u then x else u))"

definition clip_lower :: "real option \<Rightarrow> real \<Rightarrow> real" where
  "clip_lower lower x = (case lower of None \<Rightarrow> x | Some l \<Rightarrow> (if l \<le> x then x else l))"

definition clip_cell :: "real option \<Rightarrow> real option \<Rightarrow> cell \<Rightarrow> error + cell" where
  "clip_cell lower upper c =
     (case c of
        Num x \<Rightarrow> Inr (Num (clip_lower lower (clip_upper upper x)))
      | NaN \<Rightarrow> Inr NaN
      | Str s \<Rightarrow> (if lower = None \<and> upper = None then Inr (Str s) else Inl TypeError))"

text \<open>A function that may raise, over a list: the first error ends the loop.\<close>

fun map_err :: "('a \<Rightarrow> error + 'b) \<Rightarrow> 'a list \<Rightarrow> error + 'b list" where
  "map_err f [] = Inr []"
| "map_err f (x # xs) =
     (case f x of
        Inl e \<Rightarrow> Inl e
      | Inr y \<Rightarrow> (case map_err f xs of Inl e \<Rightarrow> Inl e | Inr ys \<Rightarrow> Inr (y # ys)))"

definition map_columns :: "(column \<Rightarrow> error + column) \<Rightarrow> table \<Rightarrow> error + table" where
  "map_columns f X =
     map_err (\<lambda>(n, col). case f col of Inl e \<Rightarrow> Inl e | Inr col' \<Rightarrow> Inr (n, col')) X"

definition pd_clip :: "real option \<Rightarrow> real option \<Rightarrow> table \<Rightarrow> error + table" where
  "pd_clip lower upper X =
     (let (lo, hi) =
            (case (lower, upper) of
               (Some l, Some u) \<Rightarrow> (Some (min l u), Some (max l u))
             | _ \<Rightarrow> (lower, upper))
      in map_columns (map_err (clip_cell lo hi)) X)"

text \<open>
  \<open>FeatureClipper.transform\<close>: the limits are unpacked into the arguments of \<open>clip\<close>.
  With more than two entries the third would be the axis, which the model leaves out.
\<close>

definition FeatureClipper_transform :: "pyval \<Rightarrow> table \<Rightarrow> error + table" where
  "FeatureClipper_transform limits X =
     (case limits of
        VList [] \<Rightarrow> pd_clip None None X
      | VList [lo] \<Rightarrow>
          (case clip_bound lo of Inl e \<Rightarrow> Inl e | Inr l \<Rightarrow> pd_clip l None X)
      | VList [lo, hi] \<Rightarrow>
          (case clip_bound lo of
             Inl e \<Rightarrow> Inl e
           | Inr l \<Rightarrow> (case clip_bound hi of Inl e \<Rightarrow> Inl e | Inr u \<Rightarrow> pd_clip l u X))
      | VList _ \<Rightarrow> Inl NotModelled
      | _ \<Rightarrow> Inl TypeError)"

subsection \<open>FeatureImputer and FeatureScaler\<close>

text \<open>\<open>FeatureImputer.__interpret_imputation\<close>.\<close>

definition interpret_imputation :: "string \<Rightarrow> pyval \<Rightarrow> inner_estimator" where
  "interpret_imputation imputation param =
     (if imputation = ''mean'' then SimpleImputer ''mean'' VNone
      else if imputation = ''median'' then SimpleImputer ''median'' VNone
      else if imputation = ''constant'' then SimpleImputer ''constant'' param
      else InnerIdentity)"

text \<open>\<open>FeatureScaler.__interpret_scaler\<close>.\<close>

definition interpret_scaler :: "pyval \<Rightarrow> inner_estimator" where
  "interpret_scaler scaler =
     (if scaler = VStr ''min_max'' then MinMaxScaler
      else if scaler = VStr ''standard'' then StandardScaler
      else if scaler = VStr ''robust'' then RobustScaler
      else if scaler = VNone then InnerIdentity
      else InnerIdentity)"

section \<open>The step interpreter\<close>

text \<open>
  \<open>PreProcessor.__interpret_process_step(key, value, type_)\<close>.  In the imputation
  branch the strategy read from the value only decides the parameter: the imputer is
  built with \<open>strategy="constant"\<close> whatever it is.
\<close>

definition interpret_process_step ::
  "pylib \<Rightarrow> string \<Rightarrow> pyval \<Rightarrow> pyval \<Rightarrow> error + transformer" where
  "interpret_process_step L key val type' =
     (if key = ''transformation'' then FeatureTransformer_init val
      else if key = ''limits'' then Inr (FeatureClipper val)
      else if key = ''imputation_strategy'' then
        (case split_colon (str_of L val) of
           [] \<Rightarrow> Inl ValueError
         | strategy # param \<Rightarrow>
             (if strategy = ''constant'' then
                (if type' \<in> set [VStr ''string'', VStr ''str'', VStr ''object''] then
                   (case param of
                      [] \<Rightarrow> Inl IndexError
                    | p # _ \<Rightarrow> Inr (FeatureImputer ''constant'' (VStr p)))
                 else
                   (case param of
                      [] \<Rightarrow> Inl IndexError
                    | p # _ \<Rightarrow>
                        (case py_float L p of
                           None \<Rightarrow> Inl ValueError
                         | Some r \<Rightarrow> Inr (FeatureImputer ''constant'' (VFloat r)))))
              else Inr (FeatureImputer ''constant'' VNone)))
      else if key = ''discretizer'' then
        (case split_colon (str_of L val) of
           [strategy, n_bins] \<Rightarrow>
             (case py_int L n_bins of
                None \<Rightarrow> Inl ValueError
              | Some n \<Rightarrow>
                  Inr (FeatureDiscretizer strategy n (KBinsDiscretizer strategy n)))
         | _ \<Rightarrow> Inl ValueError)
      else if key = ''scaler'' then Inr (FeatureScaler val (interpret_scaler val))
      else if key = ''weight'' then Inr (FeatureWeigher val)
      else Inr Identity)"

section \<open>Fitting and applying the elementary transforms\<close>

text \<open>
  Modelled from the spec: \<open>dataframe_transformer\<close> of \<open>src.base.commons\<close>, which is not
  among the sources.  The spec calls it the table-transform adapter: it applies a
  columnar transform and rewraps its raw output in a named table, each output column
  under the name of the input column at its position.  A raw output with another number
  of columns cannot be rewrapped.
\<close>

definition dataframe_transformer :: "table \<Rightarrow> (table \<Rightarrow> error + matrix) \<Rightarrow> error + table" where
  "dataframe_transformer X transform =
     (case transform X of
        Inl e \<Rightarrow> Inl e
      | Inr M \<Rightarrow> (if length M = length X then Inr (zip (map fst X) M) else Inl ValueError))"

text \<open>The raw output of a transform that returns a table.\<close>

definition raw_output :: "(table \<Rightarrow> error + table) \<Rightarrow> table \<Rightarrow> error + matrix" where
  "raw_output f X = (case f X of Inl e \<Rightarrow> Inl e | Inr Y \<Rightarrow> Inr (map snd Y))"

text \<open>\<open>FeatureTransformer.transform\<close>: \<open>X.apply(self.transformer)\<close>, column by column.\<close>

definition FeatureTransformer_transform :: "pylib \<Rightarrow> np_function \<Rightarrow> table \<Rightarrow> error + table" where
  "FeatureTransformer_transform L f X =
     (case f of
        lambda_x_x \<Rightarrow> Inr X
      | _ \<Rightarrow> map_columns (np_apply L f) X)"

text \<open>
  \<open>FeatureWeigher.transform\<close>: \<open>X[col] = X[col] * self.weight\<close> for every column.  A
  number times a missing entry is missing; a string times an integer repeats it.
\<close>

definition mul_cell :: "pyval \<Rightarrow> cell \<Rightarrow> error + cell" where
  "mul_cell w c =
     (case w of
        VList _ \<Rightarrow> Inl NotModelled
      | _ \<Rightarrow>
        (case c of
           Num x \<Rightarrow> (case py_number w of None \<Rightarrow> Inl TypeError | Some r \<Rightarrow> Inr (Num (x * r)))
         | NaN \<Rightarrow> (case py_number w of None \<Rightarrow> Inl TypeError | Some r \<Rightarrow> Inr NaN)
         | Str s \<Rightarrow>
             (case w of
                VInt n \<Rightarrow> Inr (Str (concat (replicate (nat n) s)))
              | VBool b \<Rightarrow> Inr (Str (if b then s else []))
              | _ \<Rightarrow> Inl TypeError)))"

definition FeatureWeigher_transform :: "pyval \<Rightarrow> table \<Rightarrow> error + table" where
  "FeatureWeigher_transform weight X = map_columns (map_err (mul_cell weight)) X"

text \<open>
  An inner estimator is scikit-learn's but for the module's own \<open>Identity\<close>, whose \<open>fit\<close>
  does nothing and whose \<open>transform\<close> returns its argument.
\<close>

definition inner_fit :: "pylib \<Rightarrow> inner_estimator \<Rightarrow> table \<Rightarrow> error + (table \<Rightarrow> error + matrix)" where
  "inner_fit L est X =
     (case est of
        InnerIdentity \<Rightarrow> Inr (\<lambda>Y. Inr (map snd Y))
      | _ \<Rightarrow> sk_fit L est X)"

text \<open>
  \<open>FeatureDiscretizer.__train_value_maps\<close>: for every column, the mean of the original
  values per bin index (\<open>groupby("order").mean()\<close>), as a dictionary from the bin index.
\<close>

definition bin_mean :: "column \<Rightarrow> column \<Rightarrow> real \<Rightarrow> cell" where
  "bin_mean orders vals b =
     (let xs = concat (map (\<lambda>(q, v). case (q, v) of (Num b', Num x) \<Rightarrow> (if b' = b then [x] else []) | _ \<Rightarrow> [])
                        (zip orders vals))
      in if xs = [] then NaN else Num (sum_list xs / real (length xs)))"

definition value_map :: "column \<Rightarrow> column \<Rightarrow> error + (real \<times> cell) list" where
  "value_map orders vals =
     (if list_ex (\<lambda>v. case v of Str s \<Rightarrow> True | _ \<Rightarrow> False) vals then Inl NotModelled
      else Inr (map (\<lambda>b. (b, bin_mean orders vals b))
                  (sort (remdups (concat (map (\<lambda>q. case q of Num b \<Rightarrow> [b] | _ \<Rightarrow> []) orders))))))"

definition train_value_maps :: "matrix \<Rightarrow> table \<Rightarrow> error + (real \<times> cell) list list" where
  "train_value_maps X_transf X =
     map_err (\<lambda>i. if i < length X then value_map (X_transf ! i) (snd (X ! i)) else Inl IndexError)
       [0 ..< length X_transf]"

text \<open>\<open>FeatureDiscretizer.__apply_value_maps\<close>: \<open>replace(subs)\<close> on every column.\<close>

definition replace_cell :: "(real \<times> cell) list \<Rightarrow> cell \<Rightarrow> cell" where
  "replace_cell subs c =
     (case c of
        Num b \<Rightarrow> (case map_of subs b of None \<Rightarrow> c | Some v \<Rightarrow> v)
      | _ \<Rightarrow> c)"

definition apply_value_maps :: "(real \<times> cell) list list \<Rightarrow> table \<Rightarrow> error + table" where
  "apply_value_maps value_maps X_transf =
     map_err (\<lambda>i. if i < length value_maps
                   then Inr (fst (X_transf ! i), map (replace_cell (value_maps ! i)) (snd (X_transf ! i)))
                   else Inl IndexError)
       [0 ..< length X_transf]"

definition FeatureDiscretizer_fit ::
  "pylib \<Rightarrow> inner_estimator \<Rightarrow> table \<Rightarrow> error + (table \<Rightarrow> error + table)" where
  "FeatureDiscretizer_fit L discretizer X =
     (case sk_fit L discretizer X of
        Inl e \<Rightarrow> Inl e
      | Inr g \<Rightarrow>
          (case g X of
             Inl e \<Rightarrow> Inl e
           | Inr X_transf \<Rightarrow>
               (case train_value_maps X_transf X of
                  Inl e \<Rightarrow> Inl e
                | Inr value_maps \<Rightarrow>
                    Inr (\<lambda>Y. case dataframe_transformer Y g of
                                Inl e \<Rightarrow> Inl e
                              | Inr X_result \<Rightarrow> apply_value_maps value_maps X_result))))"

text \<open>
  \<open>fit\<close> of each transform, returning its \<open>transform\<close> method with the fitted state in
  it.  The stateless transforms return \<open>self\<close> unchanged.
\<close>

fun transformer_fit :: "pylib \<Rightarrow> transformer \<Rightarrow> table \<Rightarrow> error + (table \<Rightarrow> error + table)" where
  "transformer_fit L Identity X = Inr (\<lambda>Y. Inr Y)"
| "transformer_fit L (FeatureTransformer transformation f) X = Inr (FeatureTransformer_transform L f)"
| "transformer_fit L (FeatureClipper limits) X = Inr (FeatureClipper_transform limits)"
| "transformer_fit L (FeatureImputer strategy parameter) X =
     (case inner_fit L (interpret_imputation strategy parameter) X of
        Inl e \<Rightarrow> Inl e
      | Inr g \<Rightarrow> Inr (\<lambda>Y. dataframe_transformer Y g))"
| "transformer_fit L (FeatureScaler strategy scaler) X =
     (case inner_fit L scaler X of
        Inl e \<Rightarrow> Inl e
      | Inr g \<Rightarrow> Inr (\<lambda>Y. dataframe_transformer Y g))"
| "transformer_fit L (FeatureWeigher weight) X = Inr (FeatureWeigher_transform weight)"
| "transformer_fit L (FeatureDiscretizer strategy n_bins discretizer) X =
     FeatureDiscretizer_fit L discretizer X"

section \<open>Column routing and the sequential pipeline\<close>

text \<open>
  The module's \<open>ColumnTransformer\<close> wraps scikit-learn's.  Every triple selects columns
  by position; a position outside the table is a \<open>ValueError\<close>.  scikit-learn fits a
  transformer by \<open>fit_transform\<close>, so a transform that fails, fails the fit; at
  \<open>transform\<close> the table must have as many columns as at \<open>fit\<close>, and the outputs are
  stacked side by side.
\<close>

definition select_positions :: "table \<Rightarrow> nat list \<Rightarrow> error + table" where
  "select_positions X cols =
     map_err (\<lambda>k. if k < length X then Inr (X ! k) else Inl ValueError) cols"

definition fit_one ::
  "pylib \<Rightarrow> table \<Rightarrow> string \<times> transformer \<times> nat list
     \<Rightarrow> error + (nat list \<times> (table \<Rightarrow> error + table))" where
  "fit_one L X tr =
     (case tr of (n, t, cols) \<Rightarrow>
        (case select_positions X cols of
           Inl e \<Rightarrow> Inl e
         | Inr Xs \<Rightarrow>
             (case transformer_fit L t Xs of
                Inl e \<Rightarrow> Inl e
              | Inr f \<Rightarrow> (case f Xs of Inl e \<Rightarrow> Inl e | Inr Y \<Rightarrow> Inr (cols, f)))))"

definition ColumnTransformer_fit ::
  "pylib \<Rightarrow> (string \<times> transformer \<times> nat list) list \<Rightarrow> table
     \<Rightarrow> error + (nat \<times> (nat list \<times> (table \<Rightarrow> error + table)) list)" where
  "ColumnTransformer_fit L transformers X =
     (case map_err (fit_one L X) transformers of
        Inl e \<Rightarrow> Inl e
      | Inr fs \<Rightarrow> Inr (length X, fs))"

definition transform_one :: "table \<Rightarrow> nat list \<times> (table \<Rightarrow> error + table) \<Rightarrow> error + matrix" where
  "transform_one X cf =
     (case cf of (cols, f) \<Rightarrow>
        (case select_positions X cols of
           Inl e \<Rightarrow> Inl e
         | Inr Xs \<Rightarrow> raw_output f Xs))"

definition ColumnTransformer_transform ::
  "nat \<times> (nat list \<times> (table \<Rightarrow> error + table)) list \<Rightarrow> table \<Rightarrow> error + table" where
  "ColumnTransformer_transform F X =
     dataframe_transformer X
       (\<lambda>Y. if length Y \<noteq> fst F then Inl ValueError
            else (case map_err (transform_one Y) (snd F) of
                    Inl e \<Rightarrow> Inl e
                  | Inr Ms \<Rightarrow> Inr (concat Ms)))"

datatype stage =
    ColumnTransformer "(string \<times> transformer \<times> nat list) list"
  | IdentityStep

definition stage_fit :: "pylib \<Rightarrow> stage \<Rightarrow> table \<Rightarrow> error + (table \<Rightarrow> error + table)" where
  "stage_fit L st X =
     (case st of
        IdentityStep \<Rightarrow> Inr (\<lambda>Y. Inr Y)
      | ColumnTransformer transformers \<Rightarrow>
          (case ColumnTransformer_fit L transformers X of
             Inl e \<Rightarrow> Inl e
           | Inr F \<Rightarrow> Inr (ColumnTransformer_transform F)))"

text \<open>
  scikit-learn's \<open>Pipeline.fit\<close>: every step but the last is fitted and applied, its
  output being the next step's input; the last is fitted only.  \<open>Pipeline.transform\<close>
  applies the steps in order.
\<close>

fun Pipeline_fit :: "pylib \<Rightarrow> stage list \<Rightarrow> table \<Rightarrow> error + (table \<Rightarrow> error + table) list" where
  "Pipeline_fit L [] X = Inr []"
| "Pipeline_fit L [st] X =
     (case stage_fit L st X of Inl e \<Rightarrow> Inl e | Inr f \<Rightarrow> Inr [f])"
| "Pipeline_fit L (st # rest) X =
     (case stage_fit L st X of
        Inl e \<Rightarrow> Inl e
      | Inr f \<Rightarrow>
          (case f X of
             Inl e \<Rightarrow> Inl e
           | Inr Xt \<Rightarrow>
               (case Pipeline_fit L rest Xt of Inl e \<Rightarrow> Inl e | Inr fs \<Rightarrow> Inr (f # fs))))"

fun Pipeline_transform :: "(table \<Rightarrow> error + table) list \<Rightarrow> table \<Rightarrow> error + table" where
  "Pipeline_transform [] X = Inr X"
| "Pipeline_transform (f # fs) X =
     (case f X of Inl e \<Rightarrow> Inl e | Inr Xt \<Rightarrow> Pipeline_transform fs Xt)"

section \<open>PreProcessor\<close>

text \<open>
  The pipeline attribute: the object \<open>__set_preprocessor\<close> builds (its steps under
  their transform order, from which the step name \<open>step_<order>\<close> is made), and after a
  successful \<open>fit\<close> the fitted steps.
\<close>

datatype pipeline_object =
    Unfitted "(nat \<times> stage) list"
  | Fitted "(table \<Rightarrow> error + table) list"

text \<open>
  The instance: the caller's list of configuration dictionaries, held by reference, and
  the attributes \<open>fit\<close> sets.  \<open>preprocessor\<close> does not exist before the first \<open>fit\<close>.
\<close>

record PreProcessor =
  features_config :: "pyval dict list"
  feature_names :: "string list option"
  feature_active :: "pyval dict option"
  feature_types :: "pyval dict option"
  preprocessor :: "pipeline_object option"

definition PreProcessor_init :: "pyval dict list \<Rightarrow> PreProcessor" where
  "PreProcessor_init cfg =
     \<lparr>features_config = cfg, feature_names = None, feature_active = None,
      feature_types = None, preprocessor = None\<rparr>"

subsection \<open>Interpreting the configuration\<close>

text \<open>
  \<open>config["name"]\<close>.  Feature names are column labels and dictionary keys; the model
  follows string names.
\<close>

definition config_name :: "pyval dict \<Rightarrow> error + string" where
  "config_name config =
     (case dict_get config ''name'' of
        Inl e \<Rightarrow> Inl e
      | Inr v \<Rightarrow> (case v of VStr n \<Rightarrow> Inr n | _ \<Rightarrow> Inl NotModelled))"

text \<open>\<open>if "active" not in config: config.update({"active": True})\<close>.\<close>

definition default_active :: "pyval dict \<Rightarrow> pyval dict" where
  "default_active config =
     (if \<not> has_key config ''active'' then dict_set config ''active'' (VBool True) else config)"

text \<open>\<open>{config["name"]: config[field] for config in self.features_config}\<close>.\<close>

fun dict_comprehension :: "string \<Rightarrow> pyval dict list \<Rightarrow> pyval dict \<Rightarrow> error + pyval dict" where
  "dict_comprehension field [] acc = Inr acc"
| "dict_comprehension field (config # rest) acc =
     (case config_name config of
        Inl e \<Rightarrow> Inl e
      | Inr n \<Rightarrow>
          (case dict_get config field of
             Inl e \<Rightarrow> Inl e
           | Inr v \<Rightarrow> dict_comprehension field rest (dict_set acc n v)))"

text \<open>
  \<open>PreProcessor.__interpret_config\<close>.  The dictionaries are updated in place before
  anything can raise, and each attribute is assigned once its value is built, so an
  exception leaves the earlier effects behind: the result is the outcome together with
  the instance as it then is.
\<close>

definition interpret_config :: "PreProcessor \<Rightarrow> (error + unit) \<times> PreProcessor" where
  "interpret_config s =
     (let s1 = s\<lparr>features_config := map default_active (features_config s)\<rparr> in
      case map_err config_name (features_config s1) of
        Inl e \<Rightarrow> (Inl e, s1)
      | Inr names \<Rightarrow>
          (let s2 = s1\<lparr>feature_names := Some names\<rparr> in
           case dict_comprehension ''active'' (features_config s2) [] of
             Inl e \<Rightarrow> (Inl e, s2)
           | Inr act \<Rightarrow>
               (let s3 = s2\<lparr>feature_active := Some act\<rparr> in
                case dict_comprehension ''type'' (features_config s3) [] of
                  Inl e \<Rightarrow> (Inl e, s3)
                | Inr tys \<Rightarrow> (Inr (), s3\<lparr>feature_types := Some tys\<rparr>))))"

subsection \<open>The action plan\<close>

text \<open>The keys of a configuration that declare steps, in the dictionary's order.\<close>

definition step_keys :: "pyval dict \<Rightarrow> string list" where
  "step_keys config =
     filter (\<lambda>x. x \<notin> set [''name'', ''active'', ''type'', ''encode'', ''polynomial_degree''])
       (map fst config)"

record plan_row =
  feature_order :: nat
  feature_name :: string
  active :: pyval
  type' :: pyval
  transform_order :: nat
  key :: string
  val :: pyval

text \<open>The rows of one configuration: one per step key, numbered from 0.\<close>

definition config_rows :: "nat \<Rightarrow> pyval dict \<Rightarrow> error + plan_row list" where
  "config_rows j config =
     map_err (\<lambda>(i, k).
         case config_name config of
           Inl e \<Rightarrow> Inl e
         | Inr n \<Rightarrow>
             (case dict_get config ''active'' of
                Inl e \<Rightarrow> Inl e
              | Inr a \<Rightarrow>
                  (case dict_get config ''type'' of
                     Inl e \<Rightarrow> Inl e
                   | Inr t \<Rightarrow>
                       (case dict_get config k of
                          Inl e \<Rightarrow> Inl e
                        | Inr v \<Rightarrow>
                            Inr \<lparr>feature_order = j, feature_name = n, active = a, type' = t,
                                 transform_order = i, key = k, val = v\<rparr>))))
       (enumerate 0 (step_keys config))"

definition flat_rows :: "pyval dict list \<Rightarrow> error + plan_row list" where
  "flat_rows cfg =
     (case map_err (\<lambda>(j, config). config_rows j config) (enumerate 0 cfg) of
        Inl e \<Rightarrow> Inl e
      | Inr rs \<Rightarrow> Inr (concat rs))"

text \<open>\<open>unique()\<close>: the distinct values in the order of their first appearance.\<close>

definition unique :: "'a list \<Rightarrow> 'a list" where
  "unique xs = rev (remdups (rev xs))"

text \<open>\<open>self.feature_names.index(col)\<close>.\<close>

fun index_of :: "'a list \<Rightarrow> 'a \<Rightarrow> nat option" where
  "index_of [] x = None"
| "index_of (y # ys) x = (if y = x then Some 0 else map_option Suc (index_of ys x))"

text \<open>Subscripting an attribute that is still \<open>None\<close> raises \<open>TypeError\<close>.\<close>

definition attr_get :: "pyval dict option \<Rightarrow> string \<Rightarrow> error + pyval" where
  "attr_get d k = (case d of None \<Rightarrow> Inl TypeError | Some m \<Rightarrow> dict_get m k)"

text \<open>
  The inner loop of \<open>__create_action_plan\<close>: for one transform order, every feature name
  with no row at that order gets an identity row appended to the frame.
\<close>

fun fill_features ::
  "PreProcessor \<Rightarrow> string list \<Rightarrow> nat \<Rightarrow> string list \<Rightarrow> plan_row list \<Rightarrow> error + plan_row list" where
  "fill_features s names order' [] df = Inr df"
| "fill_features s names order' (col # cols) df =
     (if length (filter (\<lambda>r. feature_name r = col \<and> transform_order r = order') df) = 0 then
        (case index_of names col of
           None \<Rightarrow> Inl ValueError
         | Some fo \<Rightarrow>
             (case attr_get (feature_active s) col of
                Inl e \<Rightarrow> Inl e
              | Inr a \<Rightarrow>
                  (case attr_get (feature_types s) col of
                     Inl e \<Rightarrow> Inl e
                   | Inr t \<Rightarrow>
                       fill_features s names order' cols
                         (df @ [\<lparr>feature_order = fo, feature_name = col, active = a, type' = t,
                                 transform_order = order', key = ''transformation'',
                                 val = VStr ''identity''\<rparr>]))))
      else fill_features s names order' cols df)"

text \<open>The outer loop, over the transform orders of the declared rows.\<close>

fun fill_orders :: "PreProcessor \<Rightarrow> nat list \<Rightarrow> plan_row list \<Rightarrow> error + plan_row list" where
  "fill_orders s [] df = Inr df"
| "fill_orders s (order' # orders) df =
     (case feature_names s of
        None \<Rightarrow> Inl TypeError
      | Some names \<Rightarrow>
          (case fill_features s names order' names df of
             Inl e \<Rightarrow> Inl e
           | Inr df' \<Rightarrow> fill_orders s orders df'))"

text \<open>The sort key of \<open>sort_values(["transform_order", "feature_order"])\<close>, compared
  lexicographically.\<close>

definition plan_key :: "plan_row \<Rightarrow> nat \<times> nat" where
  "plan_key r = (transform_order r, feature_order r)"

text \<open>
  \<open>PreProcessor.__create_action_plan\<close>: the declared rows, the identity rows, and the
  sort by transform order, then feature order.
\<close>

definition create_action_plan :: "PreProcessor \<Rightarrow> error + plan_row list" where
  "create_action_plan s =
     (case flat_rows (features_config s) of
        Inl e \<Rightarrow> Inl e
      | Inr df \<Rightarrow>
          (case fill_orders s (unique (map transform_order df)) df of
             Inl e \<Rightarrow> Inl e
           | Inr df' \<Rightarrow> Inr (sort_key plan_key df')))"

subsection \<open>Assembling the pipeline\<close>

definition step_transformers ::
  "pylib \<Rightarrow> plan_row list \<Rightarrow> error + (string \<times> transformer \<times> nat list) list" where
  "step_transformers L df_step =
     map_err (\<lambda>r. case interpret_process_step L (key r) (val r) (type' r) of
                     Inl e \<Rightarrow> Inl e
                   | Inr t \<Rightarrow> Inr (feature_name r, t, [feature_order r]))
       df_step"

text \<open>\<open>PreProcessor.__set_preprocessor\<close>.\<close>

definition set_preprocessor :: "pylib \<Rightarrow> plan_row list \<Rightarrow> error + (nat \<times> stage) list" where
  "set_preprocessor L action_plan =
     (case map_err (\<lambda>order'.
               case step_transformers L
                      (sort_key feature_order
                         (filter (\<lambda>r. transform_order r = order') action_plan)) of
                 Inl e \<Rightarrow> Inl e
               | Inr transformers \<Rightarrow> Inr (order', ColumnTransformer transformers))
            (unique (map transform_order action_plan)) of
        Inl e \<Rightarrow> Inl e
      | Inr steps \<Rightarrow>
          (if length steps > 0 then Inr steps else Inr [(0, IdentityStep)]))"

subsection \<open>fit, transform and fit_transform\<close>

text \<open>Python's truth value of a configuration value.\<close>

definition py_truthy :: "pyval \<Rightarrow> bool" where
  "py_truthy v =
     (case v of
        VNone \<Rightarrow> False
      | VBool b \<Rightarrow> b
      | VInt i \<Rightarrow> i \<noteq> 0
      | VFloat r \<Rightarrow> r \<noteq> 0
      | VStr s \<Rightarrow> s \<noteq> []
      | VList l \<Rightarrow> l \<noteq> [])"

text \<open>\<open>PreProcessor.__get_active_features\<close>.\<close>

definition get_active_features :: "PreProcessor \<Rightarrow> error + string list" where
  "get_active_features s =
     (case feature_active s of
        None \<Rightarrow> Inl TypeError
      | Some act \<Rightarrow> Inr (map fst (filter (\<lambda>x. py_truthy (snd x)) act)))"

text \<open>\<open>X[features]\<close>: the named columns, in the order asked for; a copy of the data.\<close>

definition select_columns :: "table \<Rightarrow> string list \<Rightarrow> error + table" where
  "select_columns X features =
     map_err (\<lambda>f. case map_of X f of None \<Rightarrow> Inl (KeyError f) | Some col \<Rightarrow> Inr (f, col)) features"

text \<open>
  \<open>PreProcessor.fit\<close>.  The pipeline object is assigned before it is fitted.  The target
  \<open>y\<close> is handed on to the pipeline, whose transforms all ignore it, so the model leaves it
  out.
\<close>

definition fit :: "pylib \<Rightarrow> PreProcessor \<Rightarrow> table \<Rightarrow> (error + unit) \<times> PreProcessor" where
  "fit L s X =
     (case interpret_config s of
        (Inl e, s1) \<Rightarrow> (Inl e, s1)
      | (Inr u, s1) \<Rightarrow>
          (case create_action_plan s1 of
             Inl e \<Rightarrow> (Inl e, s1)
           | Inr action_plan \<Rightarrow>
               (case set_preprocessor L action_plan of
                  Inl e \<Rightarrow> (Inl e, s1)
                | Inr steps \<Rightarrow>
                    (let s2 = s1\<lparr>preprocessor := Some (Unfitted steps)\<rparr> in
                     case get_active_features s2 of
                       Inl e \<Rightarrow> (Inl e, s2)
                     | Inr features \<Rightarrow>
                         (case select_columns X features of
                            Inl e \<Rightarrow> (Inl e, s2)
                          | Inr Xf \<Rightarrow>
                              (case Pipeline_fit L (map snd steps) Xf of
                                 Inl e \<Rightarrow> (Inl e, s2)
                               | Inr fs \<Rightarrow> (Inr (), s2\<lparr>preprocessor := Some (Fitted fs)\<rparr>)))))))"

text \<open>
  \<open>round(0)\<close> rounds to the nearest integer, a tie to the even one; a missing entry
  stays missing.
\<close>

definition round_half_even :: "real \<Rightarrow> int" where
  "round_half_even x =
     (let f = \<lfloor>x\<rfloor>; d = x - of_int f in
      if d < 1 / 2 then f
      else if 1 / 2 < d then f + 1
      else if even f then f else f + 1)"

definition round_cell :: "cell \<Rightarrow> error + cell" where
  "round_cell c =
     (case c of
        Num x \<Rightarrow> Inr (Num (of_int (round_half_even x)))
      | NaN \<Rightarrow> Inr NaN
      | Str s \<Rightarrow> Inl TypeError)"

text \<open>\<open>type_.lower()\<close> on ASCII letters, and \<open>"int" in text\<close>.\<close>

definition lower_char :: "char \<Rightarrow> char" where
  "lower_char c =
     (case map_of (zip ''ABCDEFGHIJKLMNOPQRSTUVWXYZ'' ''abcdefghijklmnopqrstuvwxyz'') c of
        None \<Rightarrow> c
      | Some l \<Rightarrow> l)"

definition lower :: "string \<Rightarrow> string" where
  "lower s = map lower_char s"

fun contains :: "string \<Rightarrow> string \<Rightarrow> bool" where
  "contains [] sub = (sub = [])"
| "contains (c # cs) sub = (take (length sub) (c # cs) = sub \<or> contains cs sub)"

text \<open>
  \<open>PreProcessor.__cast_columns\<close>: for every declared feature, in the order of
  \<open>feature_types\<close>, the column is read, rounded when the lowered type holds \<open>int\<close>, cast,
  and stored back under its name.
\<close>

fun cast_loop :: "pylib \<Rightarrow> pyval dict \<Rightarrow> table \<Rightarrow> error + table" where
  "cast_loop L [] X = Inr X"
| "cast_loop L ((column, t) # rest) X =
     (case t of
        VStr ts \<Rightarrow>
          (if contains (lower ts) ''int'' then
             (case map_of X column of
                None \<Rightarrow> Inl (KeyError column)
              | Some col \<Rightarrow>
                  (case map_err round_cell col of
                     Inl e \<Rightarrow> Inl e
                   | Inr rounded \<Rightarrow>
                       (case pd_astype L ts rounded of
                          Inl e \<Rightarrow> Inl e
                        | Inr col' \<Rightarrow> cast_loop L rest (dict_set X column col'))))
           else
             (case map_of X column of
                None \<Rightarrow> Inl (KeyError column)
              | Some col \<Rightarrow>
                  (case pd_astype L ts col of
                     Inl e \<Rightarrow> Inl e
                   | Inr col' \<Rightarrow> cast_loop L rest (dict_set X column col'))))
      | _ \<Rightarrow> Inl AttributeError)"

definition cast_columns :: "pylib \<Rightarrow> PreProcessor \<Rightarrow> table \<Rightarrow> error + table" where
  "cast_columns L s X =
     (case feature_types s of
        None \<Rightarrow> Inl TypeError
      | Some tys \<Rightarrow> cast_loop L tys X)"

text \<open>
  The pipeline's \<open>transform\<close>.  A pipeline that was built but not fitted works only when
  it is the pass-through one, which has nothing to fit.
\<close>

definition pipeline_transform :: "pipeline_object \<Rightarrow> table \<Rightarrow> error + table" where
  "pipeline_transform p X =
     (case p of
        Fitted fs \<Rightarrow> Pipeline_transform fs X
      | Unfitted steps \<Rightarrow>
          (if map snd steps = [IdentityStep] then Inr X else Inl NotFittedError))"

text \<open>
  \<open>PreProcessor.transform\<close>: the table restricted to the active features, through the
  pipeline, rewrapped, and cast.  The instance is not changed.
\<close>

definition precast :: "PreProcessor \<Rightarrow> table \<Rightarrow> error + table" where
  "precast s X =
     (case get_active_features s of
        Inl e \<Rightarrow> Inl e
      | Inr features \<Rightarrow>
          (case select_columns X features of
             Inl e \<Rightarrow> Inl e
           | Inr Xf \<Rightarrow>
               (case preprocessor s of
                  None \<Rightarrow> Inl AttributeError
                | Some p \<Rightarrow> dataframe_transformer Xf (raw_output (pipeline_transform p)))))"

definition transform :: "pylib \<Rightarrow> PreProcessor \<Rightarrow> table \<Rightarrow> error + table" where
  "transform L s X =
     (case precast s X of
        Inl e \<Rightarrow> Inl e
      | Inr X_transf \<Rightarrow> cast_columns L s X_transf)"

text \<open>\<open>PreProcessor.fit_transform\<close>: \<open>self.fit(X)\<close>, then \<open>return self.transform(X)\<close>.\<close>

definition fit_transform :: "pylib \<Rightarrow> PreProcessor \<Rightarrow> table \<Rightarrow> (error + table) \<times> PreProcessor" where
  "fit_transform L s X =
     (case fit L s X of
        (Inl e, s') \<Rightarrow> (Inl e, s')
      | (Inr u, s') \<Rightarrow> (transform L s' X, s'))"

section \<open>Statements of the specification\<close>

text \<open>The seven transformation names and the six step kinds the specification lists.\<close>

definition supported_transformations :: "pyval list" where
  "supported_transformations =
     map VStr [''log'', ''log10'', ''log1p'', ''exp'', ''square'', ''sqrt'', ''identity'']"

definition step_kinds :: "string list" where
  "step_kinds =
     [''transformation'', ''limits'', ''imputation_strategy'', ''discretizer'', ''scaler'',
      ''weight'']"

text \<open>
  A value lies within a closed interval; a missing entry or a string lies in none.  A
  cell is clipped to the interval when a number is replaced by itself inside the interval
  and by the nearest bound outside, and a missing entry stays missing.
\<close>

definition is_str :: "cell \<Rightarrow> bool" where
  "is_str c = (case c of Str s \<Rightarrow> True | _ \<Rightarrow> False)"

definition has_string :: "table \<Rightarrow> bool" where
  "has_string X = list_ex (\<lambda>nc. list_ex is_str (snd nc)) X"

definition in_interval :: "real \<Rightarrow> real \<Rightarrow> cell \<Rightarrow> bool" where
  "in_interval low high c = (case c of Num x \<Rightarrow> low \<le> x \<and> x \<le> high | _ \<Rightarrow> False)"

definition clipped_to :: "real \<Rightarrow> real \<Rightarrow> cell \<Rightarrow> cell \<Rightarrow> bool" where
  "clipped_to low high c c' =
     (case c of
        Num x \<Rightarrow>
          c' = Num (if x < low then low else if high < x then high else x)
          \<and> in_interval low high c'
      | NaN \<Rightarrow> c' = NaN
      | Str s \<Rightarrow> False)"

text \<open>What \<open>map_columns\<close> does to one column, as a function of the named column.\<close>

definition on_column ::
  "(column \<Rightarrow> error + column) \<Rightarrow> string \<times> column \<Rightarrow> error + string \<times> column" where
  "on_column f nc = (case f (snd nc) of Inl e \<Rightarrow> Inl e | Inr col' \<Rightarrow> Inr (fst nc, col'))"

subsection \<open>A library instance for running the model\<close>

text \<open>
  To run the model on a concrete input the library record needs a value.  This one
  knows how pandas casts a numeric column: to a numpy integer type (truncating toward
  zero, failing on a missing entry), to the nullable integer type \<open>Int64\<close> (failing on a
  number that is not an integer) and to a float type (unchanged).  Every other call
  answers \<open>NotModelled\<close>.
\<close>

definition cast_int_cell :: "cell \<Rightarrow> error + cell" where
  "cast_int_cell c =
     (case c of
        Num x \<Rightarrow> Inr (Num (of_int (if 0 \<le> x then \<lfloor>x\<rfloor> else \<lceil>x\<rceil>)))
      | NaN \<Rightarrow> Inl ValueError
      | Str s \<Rightarrow> Inl NotModelled)"

definition cast_Int64_cell :: "cell \<Rightarrow> error + cell" where
  "cast_Int64_cell c =
     (case c of
        Num x \<Rightarrow> (if x = of_int \<lfloor>x\<rfloor> then Inr (Num x) else Inl TypeError)
      | NaN \<Rightarrow> Inr NaN
      | Str s \<Rightarrow> Inl NotModelled)"

definition cast_float_cell :: "cell \<Rightarrow> error + cell" where
  "cast_float_cell c = (case c of Str s \<Rightarrow> Inl NotModelled | _ \<Rightarrow> Inr c)"

definition sample_astype :: "string \<Rightarrow> column \<Rightarrow> error + column" where
  "sample_astype t col =
     (if t \<in> set [''int'', ''int32'', ''int64''] then map_err cast_int_cell col
      else if t = ''Int64'' then map_err cast_Int64_cell col
      else if t \<in> set [''float'', ''float32'', ''float64''] then map_err cast_float_cell col
      else Inl NotModelled)"

definition sample_lib :: pylib where
  "sample_lib =
     \<lparr>py_str = (\<lambda>v. []), py_float = (\<lambda>s. None), py_int = (\<lambda>s. None),
      pd_astype = sample_astype, np_apply = (\<lambda>f col. Inl NotModelled),
      sk_fit = (\<lambda>est X. Inl NotModelled)\<rparr>"

subsection \<open>Rounding and casting\<close>

text \<open>
  A declared type contains \<open>int\<close> in any letter case when one of the eight spellings of
  the word stands somewhere in it.  A cell is rounded to the nearest integer when a
  number is replaced by an integer at distance at most one half, and a missing entry
  stays missing.  \<open>cast_result\<close> is what is to happen to a column of declared type \<open>ts\<close>:
  it is rounded first when the type contains \<open>int\<close> in any letter case, and cast (the
  cast is the library's).
\<close>

definition int_spellings :: "string list" where
  "int_spellings = [''int'', ''inT'', ''iNt'', ''iNT'', ''Int'', ''InT'', ''INt'', ''INT'']"

definition int_in_any_case :: "string \<Rightarrow> bool" where
  "int_in_any_case ts = (\<exists>p w q. ts = p @ w @ q \<and> w \<in> set int_spellings)"

definition rounded_to_nearest :: "cell \<Rightarrow> cell \<Rightarrow> bool" where
  "rounded_to_nearest c r =
     (case c of
        Num x \<Rightarrow> (\<exists>k::int. r = Num (of_int k) \<and> \<bar>x - of_int k\<bar> \<le> 1 / 2)
      | NaN \<Rightarrow> r = NaN
      | Str s \<Rightarrow> False)"

definition cast_result :: "pylib \<Rightarrow> string \<Rightarrow> column \<Rightarrow> column \<Rightarrow> bool" where
  "cast_result L ts col col' =
     (if int_in_any_case ts
      then (\<exists>r. list_all2 rounded_to_nearest col r \<and> pd_astype L ts r = Inr col')
      else pd_astype L ts col = Inr col')"




subsection \<open>The step declarations of the specification\<close>

text \<open>
  The data model of the specification, in its own words: a feature configuration has the
  attributes \<open>name\<close>, \<open>type\<close> and \<open>active\<close> and zero or more step declarations, which are
  key/value pairs taken in the order given; the two reserved keys \<open>encode\<close> and
  \<open>polynomial_degree\<close> are inert and declare no step.  The step count of a feature is the
  number of its step declarations, and \<open>max_steps\<close> is the largest step count of a
  configuration list, \<open>0\<close> for the empty list.  None of these is defined through the
  code's \<open>step_keys\<close>.
\<close>

definition attribute_keys :: "string list" where
  "attribute_keys = [''name'', ''type'', ''active'']"

definition inert_keys :: "string list" where
  "inert_keys = [''encode'', ''polynomial_degree'']"

definition step_declarations :: "pyval dict \<Rightarrow> (string \<times> pyval) list" where
  "step_declarations c =
     filter (\<lambda>kv. fst kv \<notin> set attribute_keys \<and> fst kv \<notin> set inert_keys) c"

definition step_count :: "pyval dict \<Rightarrow> nat" where
  "step_count c = length (step_declarations c)"

definition max_steps :: "pyval dict list \<Rightarrow> nat" where
  "max_steps cfg = foldr max (map step_count cfg) 0"

subsection \<open>The shape of the action plan\<close>

text \<open>
  The row a feature's \<open>i\<close>-th step declaration gives in the code; the declared rows of a
  whole configuration, feature by feature; a configuration in which every dictionary has
  a string name, an \<open>active\<close> flag and a type; a row that stands at its feature's position
  in the list of names; and the order of \<open>sort_values\<close>: by transform order, then by
  feature order.
\<close>

definition declared_row :: "pyval dict list \<Rightarrow> nat \<Rightarrow> nat \<Rightarrow> plan_row" where
  "declared_row cfg j i =
     \<lparr>feature_order = j,
      feature_name = projr (config_name (cfg ! j)),
      active = projr (dict_get (cfg ! j) ''active''),
      type' = projr (dict_get (cfg ! j) ''type''),
      transform_order = i,
      key = step_keys (cfg ! j) ! i,
      val = projr (dict_get (cfg ! j) (step_keys (cfg ! j) ! i))\<rparr>"

definition well_formed :: "pyval dict list \<Rightarrow> bool" where
  "well_formed cfg =
     (\<forall>c \<in> set cfg. (\<exists>n. config_name c = Inr n) \<and> (\<exists>a. dict_get c ''active'' = Inr a)
         \<and> (\<exists>t. dict_get c ''type'' = Inr t))"

definition declared_rows :: "pyval dict list \<Rightarrow> plan_row list" where
  "declared_rows cfg =
     concat (map (\<lambda>j. map (declared_row cfg j) [0 ..< length (step_keys (cfg ! j))])
               [0 ..< length cfg])"

definition positioned :: "string list \<Rightarrow> plan_row \<Rightarrow> bool" where
  "positioned names r = (feature_order r < length names \<and> names ! feature_order r = feature_name r)"

definition plan_order :: "plan_row \<Rightarrow> plan_row \<Rightarrow> bool" where
  "plan_order a b =
     (transform_order a < transform_order b
      \<or> (transform_order a = transform_order b \<and> feature_order a \<le> feature_order b))"

text \<open>
  What holds of every row while the plan is built, relative to the configuration, the
  feature names and the number of stages: the row stands at its feature's position and
  below the last stage, and it is the declared row of its feature and stage where there
  is one, an identity row otherwise.  A frame is in order when it holds the declared
  rows, no two of its rows share a stage and a feature, and every row is as said.  The
  instance is in order for the plan when the names are distinct, one per configuration,
  and every name has its entry in \<open>feature_active\<close> and \<open>feature_types\<close>.  Last, what the
  specification says of a row of the compiled plan, in terms of the configuration as the
  caller gave it.
\<close>

definition plan_inv :: "pyval dict list \<Rightarrow> string list \<Rightarrow> nat \<Rightarrow> plan_row \<Rightarrow> bool" where
  "plan_inv cfg names m r =
     (feature_order r < length cfg \<and> feature_name r = names ! feature_order r
      \<and> transform_order r < m
      \<and> (if transform_order r < length (step_keys (cfg ! feature_order r))
          then r = declared_row cfg (feature_order r) (transform_order r)
          else key r = ''transformation'' \<and> val r = VStr ''identity''))"

definition frame_inv :: "pyval dict list \<Rightarrow> string list \<Rightarrow> nat \<Rightarrow> plan_row list \<Rightarrow> bool" where
  "frame_inv cfg names m df =
     (set (declared_rows cfg) \<subseteq> set df \<and> distinct (map plan_key df)
      \<and> (\<forall>r \<in> set df. plan_inv cfg names m r))"

definition plan_ctx :: "PreProcessor \<Rightarrow> pyval dict list \<Rightarrow> string list \<Rightarrow> bool" where
  "plan_ctx s cfg names =
     (distinct names \<and> length names = length cfg
      \<and> (\<forall>j < length cfg. config_name (cfg ! j) = Inr (names ! j))
      \<and> (\<forall>col \<in> set names. (\<exists>a. attr_get (feature_active s) col = Inr a)
                              \<and> (\<exists>t. attr_get (feature_types s) col = Inr t)))"

definition declared_or_identity :: "pyval dict list \<Rightarrow> plan_row \<Rightarrow> bool" where
  "declared_or_identity cfg r =
     (config_name (cfg ! feature_order r) = Inr (feature_name r)
      \<and> (if transform_order r < step_count (cfg ! feature_order r)
          then key r = fst (step_declarations (cfg ! feature_order r) ! transform_order r)
               \<and> dict_get (cfg ! feature_order r) (key r) = Inr (val r)
          else key r = ''transformation'' \<and> val r = VStr ''identity''))"

subsection \<open>Example inputs\<close>

text \<open>
  Two features, the first of them inactive, none with a step; and two features of which
  one is an integer without steps and the other a float clipped to \<open>[0, 10]\<close>.
\<close>

definition inactive_config :: "pyval dict list" where
  "inactive_config =
     [[(''name'', VStr ''b''), (''type'', VStr ''float''), (''active'', VBool False)],
      [(''name'', VStr ''a''), (''type'', VStr ''float'')]]"

definition inactive_table :: table where
  "inactive_table = [(''a'', [Num 1]), (''b'', [Num 2])]"

definition rounding_config :: "pyval dict list" where
  "rounding_config =
     [[(''name'', VStr ''c''), (''type'', VStr ''int'')],
      [(''name'', VStr ''a''), (''type'', VStr ''float''), (''limits'', VList [VInt 0, VInt 10])]]"

definition rounding_table :: table where
  "rounding_table =
     [(''a'', [Num (-5), Num 15, Num 5]), (''c'', [Num (1/2), Num (3/2), Num (5/2)])]"



text \<open>
  Three features declaring one, two and no steps, and the action plan compiled from
  them.
\<close>

definition staged_config :: "pyval dict list" where
  "staged_config =
     [[(''name'', VStr ''a''), (''type'', VStr ''float''), (''limits'', VList [VInt 0, VInt 10])],
      [(''name'', VStr ''b''), (''type'', VStr ''int''), (''weight'', VInt 2),
       (''limits'', VList [VInt 0, VInt 3])],
      [(''name'', VStr ''c''), (''type'', VStr ''int'')]]"

definition staged_plan :: "plan_row list" where
  "staged_plan =
     [\<lparr>feature_order = 0, feature_name = ''a'', active = VBool True, type' = VStr ''float'',
       transform_order = 0, key = ''limits'', val = VList [VInt 0, VInt 10]\<rparr>,
      \<lparr>feature_order = 1, feature_name = ''b'', active = VBool True, type' = VStr ''int'',
       transform_order = 0, key = ''weight'', val = VInt 2\<rparr>,
      \<lparr>feature_order = 2, feature_name = ''c'', active = VBool True, type' = VStr ''int'',
       transform_order = 0, key = ''transformation'', val = VStr ''identity''\<rparr>,
      \<lparr>feature_order = 0, feature_name = ''a'', active = VBool True, type' = VStr ''float'',
       transform_order = 1, key = ''transformation'', val = VStr ''identity''\<rparr>,
      \<lparr>feature_order = 1, feature_name = ''b'', active = VBool True, type' = VStr ''int'',
       transform_order = 1, key = ''limits'', val = VList [VInt 0, VInt 3]\<rparr>,
      \<lparr>feature_order = 2, feature_name = ''c'', active = VBool True, type' = VStr ''int'',
       transform_order = 1, key = ''transformation'', val = VStr ''identity''\<rparr>]"

text \<open>
  Two features that carry reserved keys, the first \<open>encode\<close> before its one step and the
  second nothing but \<open>polynomial_degree\<close>, and the action plan compiled from them; and a
  single feature that declares nothing but \<open>encode\<close>.
\<close>

definition reserved_config :: "pyval dict list" where
  "reserved_config =
     [[(''name'', VStr ''a''), (''type'', VStr ''float''), (''encode'', VStr ''onehot''),
       (''limits'', VList [VInt 0, VInt 10])],
      [(''name'', VStr ''b''), (''type'', VStr ''int''), (''polynomial_degree'', VInt 2)]]"

definition reserved_plan :: "plan_row list" where
  "reserved_plan =
     [\<lparr>feature_order = 0, feature_name = ''a'', active = VBool True, type' = VStr ''float'',
       transform_order = 0, key = ''limits'', val = VList [VInt 0, VInt 10]\<rparr>,
      \<lparr>feature_order = 1, feature_name = ''b'', active = VBool True, type' = VStr ''int'',
       transform_order = 0, key = ''transformation'', val = VStr ''identity''\<rparr>]"

definition encoded_config :: "pyval dict list" where
  "encoded_config =
     [[(''name'', VStr ''a''), (''type'', VStr ''float''), (''encode'', VStr ''onehot'')]]"

section \<open>Loops that may raise\<close>

lemma map_err_list_all2:
  "(map_err f xs = Inr ys) = list_all2 (\<lambda>x y. f x = Inr y) xs ys"
proof (induction xs arbitrary: ys)
  case Nil
  then show ?case by auto
next
  case (Cons x xs)
  show ?case
  proof (cases "f x")
    case (Inl e)
    then show ?thesis by (auto simp: list_all2_Cons1)
  next
    case (Inr y)
    then show ?thesis
      using Cons.IH by (cases "map_err f xs") (auto simp: list_all2_Cons1)
  qed
qed

lemma map_err_Inl: "map_err f xs = Inl e \<Longrightarrow> \<exists>x \<in> set xs. f x = Inl e"
  by (induction xs) (auto split: sum.splits)

lemma map_err_total:
  "(\<And>x. x \<in> set xs \<Longrightarrow> f x = Inr (g x)) \<Longrightarrow> map_err f xs = Inr (map g xs)"
  by (induction xs) auto

lemma map_err_fails: "x \<in> set xs \<Longrightarrow> f x = Inl e \<Longrightarrow> \<exists>e'. map_err f xs = Inl e'"
  by (induction xs) (auto split: sum.splits)

lemma map_err_exists:
  assumes "\<And>x. x \<in> set xs \<Longrightarrow> \<exists>y. f x = Inr y"
  shows "\<exists>ys. map_err f xs = Inr ys"
  using assms
proof (induction xs)
  case Nil
  then show ?case by simp
next
  case (Cons x xs)
  then obtain y where y: "f x = Inr y" by (meson list.set_intros(1))
  from Cons obtain ys where "map_err f xs = Inr ys" by (meson list.set_intros(2))
  with y show ?case by simp
qed

lemma map_err_all_errors:
  assumes "x \<in> set xs" "f x = Inl e0" "\<And>y e. y \<in> set xs \<Longrightarrow> f y = Inl e \<Longrightarrow> e = e0"
  shows "map_err f xs = Inl e0"
proof -
  obtain e' where e': "map_err f xs = Inl e'"
    using map_err_fails [of x xs f e0] assms(1,2) by blast
  then obtain y where "y \<in> set xs" "f y = Inl e'" using map_err_Inl by blast
  then have "e' = e0" using assms(3) by blast
  with e' show ?thesis by simp
qed

lemma list_all2_weaken:
  assumes "list_all2 P xs ys" "\<And>x y. P x y \<Longrightarrow> Q x y"
  shows "list_all2 Q xs ys"
  using assms by (induction rule: list_all2_induct) simp_all

lemma map_columns_on_column: "map_columns f X = map_err (on_column f) X"
proof -
  have "(\<lambda>(n, col). case f col of Inl e \<Rightarrow> Inl e | Inr col' \<Rightarrow> Inr (n, col')) = on_column f"
    by (rule ext) (simp add: on_column_def case_prod_beta)
  then show ?thesis by (simp add: map_columns_def)
qed

lemma on_column_Inr: "(on_column f x = Inr y) = (fst y = fst x \<and> f (snd x) = Inr (snd y))"
  by (cases "f (snd x)"; cases y) (auto simp: on_column_def)

lemma on_column_Inl: "(on_column f x = Inl e) = (f (snd x) = Inl e)"
  by (cases "f (snd x)") (auto simp: on_column_def)

lemma map_columns_list_all2:
  "(map_columns f X = Inr Y) = list_all2 (\<lambda>x y. fst y = fst x \<and> f (snd x) = Inr (snd y)) X Y"
  by (simp add: map_columns_on_column map_err_list_all2 on_column_Inr)

lemma map_columns_names:
  "map_columns f X = Inr Y \<Longrightarrow> map fst Y = map fst X"
  unfolding map_columns_list_all2 by (induction rule: list_all2_induct) simp_all

section \<open>The step interpreter and the constructors\<close>

text \<open>
  C7.  Constructing a \<open>FeatureTransformer\<close> raises exactly when the transformation name
  is none of the seven supported ones, the exception is the \<open>ValueError\<close> of
  \<open>__interpret_transformation\<close>, and for each of the seven names the construction
  succeeds and stores the name.
\<close>

theorem FeatureTransformer_init_raises_iff:
  "((\<exists>e. FeatureTransformer_init t = Inl e) = (t \<notin> set supported_transformations))
   \<and> ((FeatureTransformer_init t = Inl ValueError) = (t \<notin> set supported_transformations))
   \<and> ((\<exists>f. FeatureTransformer_init t = Inr (FeatureTransformer t f))
        = (t \<in> set supported_transformations))"
  by (auto simp: FeatureTransformer_init_def interpret_transformation_def
        supported_transformations_def)

theorem FeatureTransformer_init_raises_iff_witness:
  "FeatureTransformer_init (VStr ''cube'') = Inl ValueError
   \<and> (\<exists>f. FeatureTransformer_init (VStr ''sqrt'') = Inr (FeatureTransformer (VStr ''sqrt'') f))"
  using FeatureTransformer_init_raises_iff [of "VStr ''cube''"]
        FeatureTransformer_init_raises_iff [of "VStr ''sqrt''"]
  by (simp add: supported_transformations_def)

text \<open>
  C8.  For a step key outside the six step kinds, the step interpreter raises nothing
  and returns the \<open>Identity\<close> transform, whatever the value and the declared type.
\<close>

theorem unknown_key_gives_Identity:
  "k \<notin> set step_kinds \<Longrightarrow> interpret_process_step L k v t = Inr Identity"
  by (simp add: interpret_process_step_def step_kinds_def)

theorem unknown_key_gives_Identity_witness:
  "''smoothing'' \<notin> set step_kinds
   \<and> interpret_process_step sample_lib ''smoothing'' (VInt 3) (VStr ''float'') = Inr Identity"
proof -
  have h: "''smoothing'' \<notin> set step_kinds" by (simp add: step_kinds_def)
  from unknown_key_gives_Identity [OF h, of sample_lib "VInt 3" "VStr ''float''"] h
  show ?thesis by simp
qed

text \<open>
  C1.  What the code does for the step \<open>imputation_strategy: mean\<close> (and \<open>median\<close>): the
  interpreter builds \<open>FeatureImputer(strategy="constant", parameter=None)\<close>, and fitting
  that imputer fits scikit-learn's \<open>SimpleImputer(strategy="constant", fill_value=None)\<close>,
  which fills a missing entry with a constant and computes no mean or median.
\<close>

theorem imputation_strategy_ignored:
  "interpret_process_step L ''imputation_strategy'' (VStr ''mean'') t
     = Inr (FeatureImputer ''constant'' VNone)
   \<and> interpret_process_step L ''imputation_strategy'' (VStr ''median'') t
     = Inr (FeatureImputer ''constant'' VNone)
   \<and> transformer_fit L (FeatureImputer ''constant'' VNone) X =
       (case sk_fit L (SimpleImputer ''constant'' VNone) X of
          Inl e \<Rightarrow> Inl e
        | Inr g \<Rightarrow> Inr (\<lambda>Y. dataframe_transformer Y g))"
  by (simp add: interpret_process_step_def str_of_def interpret_imputation_def inner_fit_def)

theorem imputation_strategy_ignored_witness:
  "interpret_process_step sample_lib ''imputation_strategy'' (VStr ''mean'') (VStr ''float'')
     = Inr (FeatureImputer ''constant'' VNone)
   \<and> interpret_process_step sample_lib ''imputation_strategy'' (VStr ''median'') (VStr ''float'')
     = Inr (FeatureImputer ''constant'' VNone)"
  using imputation_strategy_ignored [of sample_lib "VStr ''float''" "[]"] by simp

section \<open>Clipping\<close>

lemma clip_num:
  assumes "low \<le> high"
  shows "clip_lower (Some low) (clip_upper (Some high) x)
           = (if x < low then low else if high < x then high else x)"
  using assms unfolding clip_lower_def clip_upper_def by simp

lemma clip_cell_spec:
  assumes "low \<le> high"
  shows "clip_cell (Some low) (Some high) c =
     (case c of
        Num x \<Rightarrow> Inr (Num (if x < low then low else if high < x then high else x))
      | NaN \<Rightarrow> Inr NaN
      | Str s \<Rightarrow> Inl TypeError)"
  unfolding clip_cell_def using clip_num [OF assms] by (simp split: cell.split)

lemma clip_cell_clipped:
  assumes "low \<le> high" "clip_cell (Some low) (Some high) c = Inr c'"
  shows "clipped_to low high c c'"
proof (cases c)
  case (Num x)
  then have "c' = Num (if x < low then low else if high < x then high else x)"
    using assms clip_cell_spec [OF assms(1), of c] by simp
  moreover from assms(1)
  have "in_interval low high (Num (if x < low then low else if high < x then high else x))"
    unfolding in_interval_def by simp
  ultimately show ?thesis using Num unfolding clipped_to_def by simp
next
  case NaN
  then show ?thesis
    using assms clip_cell_spec [OF assms(1), of c] unfolding clipped_to_def by simp
next
  case (Str s)
  then show ?thesis using assms clip_cell_spec [OF assms(1), of c] by simp
qed

lemma clip_column_str:
  assumes "low \<le> high" "list_ex is_str col"
  shows "map_err (clip_cell (Some low) (Some high)) col = Inl TypeError"
proof -
  from assms(2) obtain c where c: "c \<in> set col" "is_str c" by (auto simp: list_ex_iff)
  then have "clip_cell (Some low) (Some high) c = Inl TypeError"
    using clip_cell_spec [OF assms(1), of c] by (simp add: is_str_def split: cell.splits)
  moreover have "\<And>y e. y \<in> set col \<Longrightarrow> clip_cell (Some low) (Some high) y = Inl e \<Longrightarrow> e = TypeError"
    using clip_cell_spec [OF assms(1)] by (simp split: cell.splits)
  ultimately show ?thesis using c(1) by (rule_tac map_err_all_errors)
qed

lemma clip_column_ok:
  assumes "low \<le> high" "\<not> list_ex is_str col"
  shows "\<exists>col'. map_err (clip_cell (Some low) (Some high)) col = Inr col'
           \<and> list_all2 (clipped_to low high) col col'"
proof -
  have "\<And>c. c \<in> set col \<Longrightarrow> \<exists>c'. clip_cell (Some low) (Some high) c = Inr c'"
  proof -
    fix c assume "c \<in> set col"
    then have "\<not> is_str c" using assms(2) by (simp add: list_ex_iff)
    then show "\<exists>c'. clip_cell (Some low) (Some high) c = Inr c'"
      using clip_cell_spec [OF assms(1), of c] by (cases c) (simp_all add: is_str_def)
  qed
  then obtain col' where m: "map_err (clip_cell (Some low) (Some high)) col = Inr col'"
    using map_err_exists by blast
  then have "list_all2 (\<lambda>c c'. clip_cell (Some low) (Some high) c = Inr c') col col'"
    by (simp only: map_err_list_all2)
  then have "list_all2 (clipped_to low high) col col'"
    using clip_cell_clipped [OF assms(1)] by (rule list_all2_weaken)
  with m show ?thesis by blast
qed

lemma pd_clip_ordered:
  "low \<le> high \<Longrightarrow>
     pd_clip (Some low) (Some high) X = map_columns (map_err (clip_cell (Some low) (Some high))) X"
  by (simp add: pd_clip_def min_def max_def)

lemma FeatureClipper_transform_pair:
  assumes "low \<le> high" "py_number lo = Some low" "py_number hi = Some high"
  shows "FeatureClipper_transform (VList [lo, hi]) X
           = map_columns (map_err (clip_cell (Some low) (Some high))) X"
proof -
  have "clip_bound lo = Inr (Some low)"
    using assms(2) by (cases lo) (simp_all add: clip_bound_def py_number_def)
  moreover have "clip_bound hi = Inr (Some high)"
    using assms(3) by (cases hi) (simp_all add: clip_bound_def py_number_def)
  ultimately show ?thesis
    using pd_clip_ordered [OF assms(1)] by (simp add: FeatureClipper_transform_def)
qed

text \<open>
  C6, as amended.  For bounds \<open>low \<le> high\<close> and a table with no string cell,
  \<open>FeatureClipper.transform\<close> returns a table with the same column names in which every
  number is replaced by itself when it lies in \<open>[low, high]\<close> and by the nearest bound
  otherwise, so that it lies in \<open>[low, high]\<close>, and every missing entry is still missing.
  On a table with a string cell it raises \<open>TypeError\<close>.
\<close>

theorem FeatureClipper_clips_numeric_values:
  assumes "low \<le> high" "py_number lo = Some low" "py_number hi = Some high"
  shows "(has_string X \<and> FeatureClipper_transform (VList [lo, hi]) X = Inl TypeError)
       \<or> (\<not> has_string X \<and>
           (\<exists>Y. FeatureClipper_transform (VList [lo, hi]) X = Inr Y
              \<and> map fst Y = map fst X
              \<and> list_all2 (\<lambda>x y. list_all2 (clipped_to low high) (snd x) (snd y)) X Y))"
proof (cases "has_string X")
  case True
  then obtain nc where nc: "nc \<in> set X" "list_ex is_str (snd nc)"
    by (auto simp: has_string_def list_ex_iff)
  let ?f = "map_err (clip_cell (Some low) (Some high))"
  have "map_err (on_column ?f) X = Inl TypeError"
  proof (rule map_err_all_errors [of nc])
    show "nc \<in> set X" by fact
    show "on_column ?f nc = Inl TypeError"
      using clip_column_str [OF assms(1) nc(2)] by (simp add: on_column_Inl)
  next
    fix y e
    assume "y \<in> set X" "on_column ?f y = Inl e"
    then have "?f (snd y) = Inl e" by (simp add: on_column_Inl)
    then obtain c where "clip_cell (Some low) (Some high) c = Inl e" using map_err_Inl by blast
    then show "e = TypeError" using clip_cell_spec [OF assms(1), of c] by (cases c) simp_all
  qed
  with True show ?thesis
    using FeatureClipper_transform_pair [OF assms, of X] by (simp add: map_columns_on_column)
next
  case False
  let ?f = "map_err (clip_cell (Some low) (Some high))"
  have "\<And>x. x \<in> set X \<Longrightarrow> \<exists>y. on_column ?f x = Inr y"
  proof -
    fix x assume "x \<in> set X"
    then have "\<not> list_ex is_str (snd x)" using False by (auto simp: has_string_def list_ex_iff)
    then obtain col' where "?f (snd x) = Inr col'" using clip_column_ok [OF assms(1)] by blast
    then show "\<exists>y. on_column ?f x = Inr y" by (simp add: on_column_def)
  qed
  then obtain Y where "map_err (on_column ?f) X = Inr Y" using map_err_exists by blast
  then have Y: "map_columns ?f X = Inr Y" by (simp add: map_columns_on_column)
  then have la: "list_all2 (\<lambda>x y. fst y = fst x \<and> ?f (snd x) = Inr (snd y)) X Y"
    by (simp only: map_columns_list_all2)
  have "list_all2 (\<lambda>x y. list_all2 (clipped_to low high) (snd x) (snd y)) X Y"
    using la
  proof (rule list_all2_weaken)
    fix x y
    assume "fst y = fst x \<and> ?f (snd x) = Inr (snd y)"
    then have "list_all2 (\<lambda>c c'. clip_cell (Some low) (Some high) c = Inr c') (snd x) (snd y)"
      by (simp only: map_err_list_all2)
    then show "list_all2 (clipped_to low high) (snd x) (snd y)"
      using clip_cell_clipped [OF assms(1)] by (rule list_all2_weaken)
  qed
  with False Y map_columns_names [OF Y] show ?thesis
    using FeatureClipper_transform_pair [OF assms, of X] by simp
qed

theorem FeatureClipper_clips_numeric_values_witness:
  "(0::real) \<le> 10 \<and> py_number (VInt 0) = Some 0 \<and> py_number (VInt 10) = Some 10
   \<and> \<not> has_string [(''a'', [Num (-5), Num 15, Num 5, NaN])]
   \<and> (\<exists>Y. FeatureClipper_transform (VList [VInt 0, VInt 10])
              [(''a'', [Num (-5), Num 15, Num 5, NaN])] = Inr Y
          \<and> map fst Y = [''a'']
          \<and> list_all2 (\<lambda>x y. list_all2 (clipped_to 0 10) (snd x) (snd y))
               [(''a'', [Num (-5), Num 15, Num 5, NaN])] Y)"
proof -
  have h1: "(0::real) \<le> 10" by simp
  have h2: "py_number (VInt 0) = Some 0" by (simp add: py_number_def)
  have h3: "py_number (VInt 10) = Some 10" by (simp add: py_number_def)
  have h4: "\<not> has_string [(''a'', [Num (-5), Num 15, Num 5, NaN])]"
    by (simp add: has_string_def is_str_def)
  from FeatureClipper_clips_numeric_values
         [OF h1 h2 h3, of "[(''a'', [Num (-5), Num 15, Num 5, NaN])]"] h4
  have "\<exists>Y. FeatureClipper_transform (VList [VInt 0, VInt 10])
               [(''a'', [Num (-5), Num 15, Num 5, NaN])] = Inr Y
          \<and> map fst Y = map fst [(''a'', [Num (-5), Num 15, Num 5, NaN])]
          \<and> list_all2 (\<lambda>x y. list_all2 (clipped_to 0 10) (snd x) (snd y))
               [(''a'', [Num (-5), Num 15, Num 5, NaN])] Y"
    by blast
  with h1 h2 h3 h4 show ?thesis by simp
qed

text \<open>
  C6 as stated fails on a missing entry: clipping the column \<open>[NaN]\<close> to \<open>[0, 10]\<close>
  returns \<open>[NaN]\<close>, and the missing entry lies in no interval.
\<close>

theorem FeatureClipper_missing_counterexample:
  "FeatureClipper_transform (VList [VInt 0, VInt 10]) [(''a'', [NaN])] = Inr [(''a'', [NaN])]
   \<and> \<not> in_interval 0 10 NaN"
  by (simp add: FeatureClipper_transform_def clip_bound_def py_number_def pd_clip_def
        map_columns_def clip_cell_def in_interval_def)

section \<open>Running the model\<close>

lemmas example_defs = inactive_config_def inactive_table_def rounding_config_def rounding_table_def

lemmas facade_defs =
  fit_def interpret_config_def default_active_def has_key_def config_name_def dict_get_def
  create_action_plan_def plan_key_def flat_rows_def config_rows_def step_keys_def
  enumerate_eq_zip unique_def
  set_preprocessor_def get_active_features_def py_truthy_def select_columns_def
  PreProcessor_init_def transform_def precast_def cast_columns_def pipeline_transform_def
  dataframe_transformer_def raw_output_def Let_def stage_fit_def

lemmas run_defs = facade_defs fit_transform_def step_transformers_def interpret_process_step_def
  ColumnTransformer_fit_def fit_one_def select_positions_def ColumnTransformer_transform_def
  transform_one_def FeatureClipper_transform_def clip_bound_def py_number_def pd_clip_def
  map_columns_def clip_cell_def clip_lower_def clip_upper_def sample_lib_def sample_astype_def
  cast_int_cell_def cast_float_cell_def cast_Int64_cell_def lower_def lower_char_def round_cell_def
  round_half_even_def attr_get_def FeatureTransformer_init_def interpret_transformation_def
  FeatureTransformer_transform_def

section \<open>Dictionaries\<close>

lemma dict_set_absent: "\<not> has_key d k \<Longrightarrow> dict_set d k v = d @ [(k, v)]"
  by (induction d) (auto simp: has_key_def)

lemma map_of_dict_set: "map_of (dict_set d k v) k' = (if k' = k then Some v else map_of d k')"
  by (induction d) auto

lemma dict_set_keys: "fst ` set (dict_set d k v) = insert k (fst ` set d)"
  by (induction d k v rule: dict_set.induct) (simp_all add: insert_commute)

lemma dict_set_distinct: "distinct (map fst d) \<Longrightarrow> distinct (map fst (dict_set d k v))"
  by (induction d k v rule: dict_set.induct) (auto simp: dict_set_keys)

lemma dict_comprehension_distinct:
  "dict_comprehension field cfg acc = Inr d \<Longrightarrow> distinct (map fst acc) \<Longrightarrow> distinct (map fst d)"
proof (induction cfg arbitrary: acc)
  case Nil
  then show ?case by simp
next
  case (Cons c cfg)
  from Cons.prems(1) obtain n v where "dict_comprehension field cfg (dict_set acc n v) = Inr d"
    by (auto split: sum.splits)
  then show ?case using Cons.IH dict_set_distinct [OF Cons.prems(2)] by blast
qed

section \<open>The facade: fit, transform, fit_transform\<close>

lemma default_active_eq:
  "default_active c = (if has_key c ''active'' then c else c @ [(''active'', VBool True)])"
  by (simp add: default_active_def dict_set_absent)

lemma interpret_config_features_config:
  "features_config (snd (interpret_config s)) = map default_active (features_config s)"
  by (simp add: interpret_config_def Let_def split: sum.splits)

lemma fit_features_config:
  "features_config (snd (fit L s X)) = map default_active (features_config s)"
proof -
  obtain r s1 where i: "interpret_config s = (r, s1)" by (cases "interpret_config s")
  then have s1: "features_config s1 = map default_active (features_config s)"
    using interpret_config_features_config [of s] by simp
  show ?thesis
    using i s1 by (simp add: fit_def Let_def split: sum.splits)
qed

text \<open>
  C10.  Whatever the outcome of \<open>fit\<close>, the caller's list of configuration dictionaries
  has afterwards the same length, a dictionary that had the key \<open>active\<close> is unchanged,
  and a dictionary that omitted it is the old one with the entry \<open>active: True\<close> added
  after its other entries, none of which is changed.
\<close>

theorem fit_inserts_default_active:
  "length (features_config (snd (fit L s X))) = length (features_config s)
   \<and> (\<forall>i < length (features_config s).
        features_config (snd (fit L s X)) ! i =
          (if has_key (features_config s ! i) ''active'' then features_config s ! i
           else features_config s ! i @ [(''active'', VBool True)]))"
  by (simp add: fit_features_config default_active_eq)

theorem fit_inserts_default_active_witness:
  "(1::nat) < length (features_config (PreProcessor_init inactive_config))
   \<and> features_config (snd (fit sample_lib (PreProcessor_init inactive_config) inactive_table)) ! 1
       = [(''name'', VStr ''a''), (''type'', VStr ''float''), (''active'', VBool True)]
   \<and> features_config (snd (fit sample_lib (PreProcessor_init inactive_config) inactive_table)) ! 0
       = [(''name'', VStr ''b''), (''type'', VStr ''float''), (''active'', VBool False)]"
proof -
  have l: "(1::nat) < length (features_config (PreProcessor_init inactive_config))"
       "(0::nat) < length (features_config (PreProcessor_init inactive_config))"
    by (simp_all add: PreProcessor_init_def inactive_config_def)
  note w = fit_inserts_default_active
             [of sample_lib "PreProcessor_init inactive_config" inactive_table,
              THEN conjunct2, rule_format]
  from w [OF l(1)] w [OF l(2)] l(1) show ?thesis
    by (simp add: PreProcessor_init_def inactive_config_def has_key_def)
qed

text \<open>
  C5.  \<open>fit_transform(X)\<close> raises what \<open>fit(X)\<close> raises, and otherwise returns the table
  that \<open>transform(X)\<close> returns on the instance as \<open>fit(X)\<close> left it; the instance after
  \<open>fit_transform(X)\<close> is the instance after \<open>fit(X)\<close>.
\<close>

theorem fit_transform_is_fit_then_transform:
  "fst (fit_transform L s X) =
     (case fst (fit L s X) of
        Inl e \<Rightarrow> Inl e
      | Inr u \<Rightarrow> transform L (snd (fit L s X)) X)
   \<and> snd (fit_transform L s X) = snd (fit L s X)"
  by (cases "fit L s X") (simp add: fit_transform_def split: sum.splits)

theorem fit_transform_is_fit_then_transform_witness:
  "fst (fit sample_lib (PreProcessor_init rounding_config) rounding_table) = Inr ()
   \<and> fst (fit_transform sample_lib (PreProcessor_init rounding_config) rounding_table)
       = transform sample_lib
           (snd (fit sample_lib (PreProcessor_init rounding_config) rounding_table))
           rounding_table
   \<and> fst (fit_transform sample_lib (PreProcessor_init rounding_config) rounding_table)
       = Inr [(''c'', [Num 0, Num 2, Num 2]), (''a'', [Num 0, Num 10, Num 5])]"
proof -
  have f: "fst (fit sample_lib (PreProcessor_init rounding_config) rounding_table) = Inr ()"
    by (simp add: run_defs example_defs)
  have t: "fst (fit_transform sample_lib (PreProcessor_init rounding_config) rounding_table)
       = Inr [(''c'', [Num 0, Num 2, Num 2]), (''a'', [Num 0, Num 10, Num 5])]"
    by (simp add: run_defs example_defs)
  from fit_transform_is_fit_then_transform
         [of sample_lib "PreProcessor_init rounding_config" rounding_table] f t
  show ?thesis by simp
qed

text \<open>
  C2.  What the code does with an inactive feature: on the configuration
  \<open>[{name: b, type: float, active: False}, {name: a, type: float}]\<close> and a table with
  the columns \<open>a\<close> and \<open>b\<close>, \<open>fit\<close> succeeds and the pipeline output holds the active
  column \<open>a\<close> only, but \<open>transform\<close> raises \<open>KeyError\<close> for \<open>b\<close>: \<open>__cast_columns\<close> goes
  through every declared feature, the inactive ones too.
\<close>

theorem inactive_feature_breaks_transform:
  "fst (fit L (PreProcessor_init inactive_config) inactive_table) = Inr ()
   \<and> precast (snd (fit L (PreProcessor_init inactive_config) inactive_table)) inactive_table
       = Inr [(''a'', [Num 1])]
   \<and> transform L (snd (fit L (PreProcessor_init inactive_config) inactive_table)) inactive_table
       = Inl (KeyError ''b'')"
  by (simp add: facade_defs example_defs)

theorem inactive_feature_breaks_transform_witness:
  "fst (fit sample_lib (PreProcessor_init inactive_config) inactive_table) = Inr ()
   \<and> transform sample_lib
        (snd (fit sample_lib (PreProcessor_init inactive_config) inactive_table))
        inactive_table = Inl (KeyError ''b'')"
  using inactive_feature_breaks_transform [of sample_lib] by simp

section \<open>Casting the output columns\<close>

text \<open>
  The test of the code, \<open>"int" in type_.lower()\<close>, holds exactly of the types that
  contain \<open>int\<close> in any letter case.
\<close>

lemma contains_iff: "contains ts sub = (\<exists>p q. ts = p @ sub @ q)"
proof (induction ts)
  case Nil
  then show ?case by auto
next
  case (Cons c cs)
  show ?case
  proof
    assume "contains (c # cs) sub"
    then consider "take (length sub) (c # cs) = sub" | "contains cs sub" by auto
    then show "\<exists>p q. c # cs = p @ sub @ q"
    proof cases
      case 1
      have "c # cs = take (length sub) (c # cs) @ drop (length sub) (c # cs)"
        by (simp only: append_take_drop_id)
      with 1 have "c # cs = [] @ sub @ drop (length sub) (c # cs)" by simp
      then show ?thesis by blast
    next
      case 2
      with Cons.IH obtain p q where "cs = p @ sub @ q" by blast
      then have "c # cs = (c # p) @ sub @ q" by simp
      then show ?thesis by blast
    qed
  next
    assume "\<exists>p q. c # cs = p @ sub @ q"
    then obtain p q where pq: "c # cs = p @ sub @ q" by blast
    show "contains (c # cs) sub"
    proof (cases p)
      case Nil
      with pq have "take (length sub) (c # cs) = sub" by simp
      then show ?thesis by simp
    next
      case (Cons a p')
      with pq have "cs = p' @ sub @ q" by simp
      with Cons.IH have "contains cs sub" by blast
      then show ?thesis by simp
    qed
  qed
qed

lemma lower_char_i: "(lower_char c = CHR ''i'') = (c = CHR ''i'' \<or> c = CHR ''I'')"
  by (simp add: lower_char_def split: if_splits)

lemma lower_char_n: "(lower_char c = CHR ''n'') = (c = CHR ''n'' \<or> c = CHR ''N'')"
  by (simp add: lower_char_def split: if_splits)

lemma lower_char_t: "(lower_char c = CHR ''t'') = (c = CHR ''t'' \<or> c = CHR ''T'')"
  by (simp add: lower_char_def split: if_splits)

lemma lower_is_int: "(lower w = ''int'') = (w \<in> set int_spellings)"
proof
  assume "lower w = ''int''"
  then have m: "map lower_char w = [CHR ''i'', CHR ''n'', CHR ''t'']" by (simp add: lower_def)
  then have "length w = 3" by (metis length_map length_Cons list.size(3) numeral_3_eq_3)
  then obtain a b c where w: "w = [a, b, c]"
    by (metis length_0_conv length_Suc_conv numeral_3_eq_3)
  from m have l: "lower_char a = CHR ''i''" "lower_char b = CHR ''n''" "lower_char c = CHR ''t''"
    unfolding w by simp_all
  from l(1) have a: "a = CHR ''i'' \<or> a = CHR ''I''" by (simp only: lower_char_i)
  from l(2) have b: "b = CHR ''n'' \<or> b = CHR ''N''" by (simp only: lower_char_n)
  from l(3) have c: "c = CHR ''t'' \<or> c = CHR ''T''" by (simp only: lower_char_t)
  from a b c show "w \<in> set int_spellings" unfolding w int_spellings_def by auto
next
  assume "w \<in> set int_spellings"
  then have "w = ''int'' \<or> w = ''inT'' \<or> w = ''iNt'' \<or> w = ''iNT'' \<or> w = ''Int''
             \<or> w = ''InT'' \<or> w = ''INt'' \<or> w = ''INT''"
    by (simp add: int_spellings_def)
  moreover have "lower ''int'' = ''int''" "lower ''inT'' = ''int''" "lower ''iNt'' = ''int''"
    "lower ''iNT'' = ''int''" "lower ''Int'' = ''int''" "lower ''InT'' = ''int''"
    "lower ''INt'' = ''int''" "lower ''INT'' = ''int''"
    by (simp_all add: lower_def lower_char_def)
  ultimately show "lower w = ''int''" by metis
qed

lemma contains_map:
  "contains (map f ts) sub = (\<exists>p w q. ts = p @ w @ q \<and> map f w = sub)"
proof
  assume "contains (map f ts) sub"
  then obtain p q where "map f ts = p @ (sub @ q)" unfolding contains_iff by auto
  then have "\<exists>us vs. ts = us @ vs \<and> p = map f us \<and> sub @ q = map f vs"
    by (simp only: map_eq_append_conv)
  then obtain us vs where u: "ts = us @ vs" "sub @ q = map f vs" by auto
  from u(2) have "\<exists>w q'. vs = w @ q' \<and> sub = map f w \<and> q = map f q'"
    by (simp only: append_eq_map_conv)
  then obtain w q' where v: "vs = w @ q'" "map f w = sub" by auto
  from u(1) v show "\<exists>p w q. ts = p @ w @ q \<and> map f w = sub" by auto
next
  assume "\<exists>p w q. ts = p @ w @ q \<and> map f w = sub"
  then obtain p w q where t: "ts = p @ w @ q" "map f w = sub" by auto
  then have "map f ts = map f p @ sub @ map f q" by simp
  then show "contains (map f ts) sub" unfolding contains_iff by auto
qed

lemma contains_lower_int: "contains (lower ts) ''int'' = int_in_any_case ts"
  by (simp only: lower_def contains_map int_in_any_case_def lower_is_int [unfolded lower_def])


lemma round_half_even_nearest: "\<bar>x - of_int (round_half_even x)\<bar> \<le> 1 / 2"
proof -
  have "of_int \<lfloor>x\<rfloor> \<le> x" "x < of_int \<lfloor>x\<rfloor> + 1" by linarith+
  then show ?thesis unfolding round_half_even_def Let_def by (simp split: if_splits)
qed

lemma round_cell_rounded: "round_cell c = Inr r \<Longrightarrow> rounded_to_nearest c r"
  using round_half_even_nearest
  by (cases c) (auto simp: round_cell_def rounded_to_nearest_def)

lemma round_column_rounded:
  assumes "map_err round_cell col = Inr r"
  shows "list_all2 rounded_to_nearest col r"
proof -
  from assms have "list_all2 (\<lambda>x y. round_cell x = Inr y) col r"
    by (simp only: map_err_list_all2)
  then show ?thesis using round_cell_rounded by (rule list_all2_weaken)
qed

lemma cast_loop_Cons:
  assumes "cast_loop L ((column, t0) # tys) X = Inr Z"
  shows "\<exists>ts col col'. t0 = VStr ts \<and> map_of X column = Some col \<and> cast_result L ts col col'
           \<and> cast_loop L tys (dict_set X column col') = Inr Z"
proof -
  from assms obtain ts where ts: "t0 = VStr ts" by (cases t0) simp_all
  from assms ts obtain col where col: "map_of X column = Some col"
    by (cases "map_of X column") (simp_all split: if_splits)
  show ?thesis
  proof (cases "contains (lower ts) ''int''")
    case True
    with assms ts col obtain r where r: "map_err round_cell col = Inr r"
      by (cases "map_err round_cell col") simp_all
    with assms ts col True obtain col' where c: "pd_astype L ts r = Inr col'"
      by (cases "pd_astype L ts r") simp_all
    with assms ts col True r have "cast_loop L tys (dict_set X column col') = Inr Z" by simp
    moreover have "cast_result L ts col col'"
      using True r c round_column_rounded unfolding cast_result_def contains_lower_int by auto
    ultimately show ?thesis using ts col by blast
  next
    case False
    with assms ts col obtain col' where c: "pd_astype L ts col = Inr col'"
      by (cases "pd_astype L ts col") simp_all
    with assms ts col False have "cast_loop L tys (dict_set X column col') = Inr Z" by simp
    moreover have "cast_result L ts col col'"
      using False c unfolding cast_result_def contains_lower_int by simp
    ultimately show ?thesis using ts col by blast
  qed
qed

lemma cast_loop_other:
  "cast_loop L tys X = Inr Z \<Longrightarrow> n \<notin> fst ` set tys \<Longrightarrow> map_of Z n = map_of X n"
proof (induction tys arbitrary: X)
  case Nil
  then show ?case by simp
next
  case (Cons p tys)
  obtain column t where p: "p = (column, t)" by (cases p)
  from Cons.prems(2) p have ne: "n \<noteq> column" and nin: "n \<notin> fst ` set tys" by auto
  from Cons.prems(1) p obtain col' where "cast_loop L tys (dict_set X column col') = Inr Z"
    using cast_loop_Cons [of L column t tys X Z] by auto
  then have "map_of Z n = map_of (dict_set X column col') n" using Cons.IH nin by blast
  then show ?case using ne by (simp add: map_of_dict_set)
qed

lemma cast_loop_entry:
  assumes "cast_loop L tys X = Inr Z" "distinct (map fst tys)" "(n, t) \<in> set tys"
  shows "\<exists>ts col col'. t = VStr ts \<and> map_of X n = Some col \<and> map_of Z n = Some col'
           \<and> cast_result L ts col col'"
  using assms
proof (induction tys arbitrary: X)
  case Nil
  then show ?case by simp
next
  case (Cons p tys)
  obtain column t0 where p: "p = (column, t0)" by (cases p)
  from Cons.prems(1) p obtain ts col col' where step:
    "t0 = VStr ts" "map_of X column = Some col" "cast_result L ts col col'"
    "cast_loop L tys (dict_set X column col') = Inr Z"
    using cast_loop_Cons [of L column t0 tys X Z] by auto
  show ?case
  proof (cases "(n, t) = p")
    case True
    then have nt: "n = column" "t = t0" using p by auto
    from Cons.prems(2) p have "column \<notin> fst ` set tys" by auto
    then have "map_of Z column = map_of (dict_set X column col') column"
      using cast_loop_other [OF step(4)] by blast
    then have "map_of Z column = Some col'" by (simp add: map_of_dict_set)
    with step nt show ?thesis by blast
  next
    case False
    then have mem: "(n, t) \<in> set tys" using Cons.prems(3) by auto
    then have "n \<in> fst ` set tys" by force
    then have ne: "n \<noteq> column" using Cons.prems(2) p by auto
    from Cons.prems(2) have "distinct (map fst tys)" by simp
    from Cons.IH [OF step(4) this mem] obtain ts' c c' where
      "t = VStr ts'" "map_of (dict_set X column col') n = Some c" "map_of Z n = Some c'"
      "cast_result L ts' c c'" by blast
    then show ?thesis using ne by (auto simp: map_of_dict_set)
  qed
qed

text \<open>
  \<open>feature_types\<close> is a dictionary, so its keys are distinct: a successful
  \<open>__interpret_config\<close> builds it so.
\<close>

lemma interpret_config_types_distinct:
  assumes "fst (interpret_config s) = Inr ()"
  shows "\<exists>tys. feature_types (snd (interpret_config s)) = Some tys \<and> distinct (map fst tys)"
proof -
  from assms obtain tys where
    "dict_comprehension ''type'' (map default_active (features_config s)) [] = Inr tys"
    "feature_types (snd (interpret_config s)) = Some tys"
    by (auto simp: interpret_config_def Let_def split: sum.splits)
  then show ?thesis using dict_comprehension_distinct [of "''type''" _ "[]" tys] by auto
qed












section \<open>The action plan\<close>

lemma enumerate_0: "enumerate 0 xs = map (\<lambda>i. (i, xs ! i)) [0 ..< length xs]"
  by (rule nth_equalityI) (simp_all add: nth_enumerate_eq)

lemma map_err_enumerate:
  assumes "\<And>i. i < length xs \<Longrightarrow> f (i, xs ! i) = Inr (g i)"
  shows "map_err f (enumerate 0 xs) = Inr (map g [0 ..< length xs])"
proof -
  have "map_err f (map (\<lambda>i. (i, xs ! i)) [0 ..< length xs])
          = Inr (map (\<lambda>p. g (fst p)) (map (\<lambda>i. (i, xs ! i)) [0 ..< length xs]))"
    by (rule map_err_total) (auto simp: assms)
  then show ?thesis by (simp add: enumerate_0 comp_def)
qed

lemma dict_get_step_key:
  assumes "k \<in> set (step_keys config)"
  shows "dict_get config k = Inr (projr (dict_get config k))"
proof -
  from assms have "k \<in> fst ` set config" by (auto simp: step_keys_def)
  then obtain v where "map_of config k = Some v"
    by (metis domD dom_map_of_conv_image_fst)
  then show ?thesis by (simp add: dict_get_def)
qed

lemma config_rows_closed:
  assumes "config_name (cfg ! j) = Inr n" "dict_get (cfg ! j) ''active'' = Inr a"
    "dict_get (cfg ! j) ''type'' = Inr t"
  shows "config_rows j (cfg ! j)
           = Inr (map (declared_row cfg j) [0 ..< length (step_keys (cfg ! j))])"
  unfolding config_rows_def
proof (rule map_err_enumerate)
  fix i assume "i < length (step_keys (cfg ! j))"
  then have "step_keys (cfg ! j) ! i \<in> set (step_keys (cfg ! j))" by simp
  from dict_get_step_key [OF this] assms
  show "(case (i, step_keys (cfg ! j) ! i) of
          (i, k) \<Rightarrow>
            case config_name (cfg ! j) of Inl e \<Rightarrow> Inl e
            | Inr n \<Rightarrow>
                case dict_get (cfg ! j) ''active'' of Inl e \<Rightarrow> Inl e
                | Inr a \<Rightarrow>
                    case dict_get (cfg ! j) ''type'' of Inl e \<Rightarrow> Inl e
                    | Inr t \<Rightarrow>
                        case dict_get (cfg ! j) k of Inl e \<Rightarrow> Inl e
                        | Inr v \<Rightarrow>
                            Inr \<lparr>feature_order = j, feature_name = n, active = a, type' = t,
                                 transform_order = i, key = k, val = v\<rparr>)
        = Inr (declared_row cfg j i)"
    by (simp add: declared_row_def) (metis sum.case(2))
qed

lemma flat_rows_closed:
  assumes "well_formed cfg"
  shows "flat_rows cfg = Inr (declared_rows cfg)"
proof -
  have "map_err (\<lambda>(j, config). config_rows j config) (enumerate 0 cfg)
          = Inr (map (\<lambda>j. map (declared_row cfg j) [0 ..< length (step_keys (cfg ! j))])
                   [0 ..< length cfg])"
  proof (rule map_err_enumerate)
    fix j assume "j < length cfg"
    then have "cfg ! j \<in> set cfg" by simp
    with assms obtain n a t where "config_name (cfg ! j) = Inr n"
      "dict_get (cfg ! j) ''active'' = Inr a" "dict_get (cfg ! j) ''type'' = Inr t"
      unfolding well_formed_def by blast
    from config_rows_closed [OF this]
    show "(case (j, cfg ! j) of (j, config) \<Rightarrow> config_rows j config)
            = Inr (map (declared_row cfg j) [0 ..< length (step_keys (cfg ! j))])"
      by simp
  qed
  then show ?thesis by (simp add: flat_rows_def declared_rows_def)
qed

lemma interpret_config_success:
  assumes "interpret_config s0 = (Inr (), s)"
  shows "features_config s = map default_active (features_config s0)"
    and "\<exists>names act tys.
           map_err config_name (features_config s) = Inr names \<and> feature_names s = Some names
           \<and> dict_comprehension ''active'' (features_config s) [] = Inr act
           \<and> feature_active s = Some act
           \<and> dict_comprehension ''type'' (features_config s) [] = Inr tys
           \<and> feature_types s = Some tys"
  using assms by (auto simp: interpret_config_def Let_def split: sum.splits)

lemma dict_comprehension_fields:
  "dict_comprehension field cfg acc = Inr d \<Longrightarrow> c \<in> set cfg \<Longrightarrow>
     (\<exists>n. config_name c = Inr n) \<and> (\<exists>v. dict_get c field = Inr v)"
proof (induction cfg arbitrary: acc)
  case Nil
  then show ?case by simp
next
  case (Cons c0 cfg)
  from Cons.prems(1) obtain n v where nv: "config_name c0 = Inr n" "dict_get c0 field = Inr v"
    "dict_comprehension field cfg (dict_set acc n v) = Inr d"
    by (auto split: sum.splits)
  show ?case
  proof (cases "c = c0")
    case True
    with nv show ?thesis by simp
  next
    case False
    with Cons.prems(2) have "c \<in> set cfg" by simp
    then show ?thesis using Cons.IH [OF nv(3)] by blast
  qed
qed

lemma dict_comprehension_keys:
  "dict_comprehension field cfg acc = Inr d \<Longrightarrow> map_err config_name cfg = Inr names \<Longrightarrow>
     fst ` set d = fst ` set acc \<union> set names"
proof (induction cfg arbitrary: acc names)
  case Nil
  then show ?case by simp
next
  case (Cons c0 cfg)
  from Cons.prems(1) obtain n v where nv: "config_name c0 = Inr n"
    "dict_comprehension field cfg (dict_set acc n v) = Inr d"
    by (auto split: sum.splits)
  from Cons.prems(2) nv(1) obtain ns where ns: "map_err config_name cfg = Inr ns" "names = n # ns"
    by (auto split: sum.splits)
  from Cons.IH [OF nv(2) ns(1)] show ?case using ns(2) by (simp add: dict_set_keys)
qed

lemma well_formed_after_interpret_config:
  assumes "interpret_config s0 = (Inr (), s)"
  shows "well_formed (features_config s)"
proof -
  from interpret_config_success(2) [OF assms] obtain act tys where
    "dict_comprehension ''active'' (features_config s) [] = Inr act"
    "dict_comprehension ''type'' (features_config s) [] = Inr tys" by blast
  then show ?thesis
    unfolding well_formed_def using dict_comprehension_fields by blast
qed

lemma map_err_nth:
  assumes "map_err f xs = Inr ys"
  shows "length ys = length xs" and "\<And>i. i < length xs \<Longrightarrow> f (xs ! i) = Inr (ys ! i)"
proof -
  from assms have l: "list_all2 (\<lambda>x y. f x = Inr y) xs ys" by (simp only: map_err_list_all2)
  then show "length ys = length xs" by (simp add: list_all2_lengthD)
  fix i assume "i < length xs"
  with l show "f (xs ! i) = Inr (ys ! i)" by (simp add: list_all2_conv_all_nth)
qed

lemma index_of_Some:
  "x \<in> set xs \<Longrightarrow> \<exists>j. index_of xs x = Some j \<and> j < length xs \<and> xs ! j = x"
  by (induction xs) auto

lemma index_of_nth: "index_of xs x = Some j \<Longrightarrow> j < length xs \<and> xs ! j = x"
  by (induction xs arbitrary: j) (auto split: if_splits)

lemma set_unique: "set (unique xs) = set xs"
  by (simp add: unique_def)

lemma distinct_unique: "distinct (unique xs)"
  by (simp add: unique_def)

lemma fill_features_positioned:
  "fill_features s names t cols df = Inr df' \<Longrightarrow> (\<And>r. r \<in> set df \<Longrightarrow> positioned names r)
     \<Longrightarrow> r \<in> set df' \<Longrightarrow> positioned names r"
proof (induction cols arbitrary: df)
  case Nil
  then show ?case by simp
next
  case (Cons col cols)
  show ?case
  proof (cases "length (filter (\<lambda>r. feature_name r = col \<and> transform_order r = t) df) = 0")
    case False
    with Cons.prems(1) have "fill_features s names t cols df = Inr df'" by simp
    from Cons.IH [OF this Cons.prems(2,3)] show ?thesis by simp
  next
    case True
    with Cons.prems(1) obtain fo a ty where new:
      "index_of names col = Some fo"
      "fill_features s names t cols
         (df @ [\<lparr>feature_order = fo, feature_name = col, active = a, type' = ty,
                 transform_order = t, key = ''transformation'', val = VStr ''identity''\<rparr>]) = Inr df'"
      by (auto split: option.splits sum.splits)
    have "positioned names \<lparr>feature_order = fo, feature_name = col, active = a, type' = ty,
                 transform_order = t, key = ''transformation'', val = VStr ''identity''\<rparr>"
      using index_of_nth [OF new(1)] by (simp add: positioned_def)
    with Cons.prems(2) have "\<And>r. r \<in> set (df @ [\<lparr>feature_order = fo, feature_name = col, active = a, type' = ty,
                 transform_order = t, key = ''transformation'', val = VStr ''identity''\<rparr>]) \<Longrightarrow> positioned names r"
      by auto
    from Cons.IH [OF new(2) this Cons.prems(3)] show ?thesis by simp
  qed
qed

lemma fill_orders_positioned:
  "fill_orders s orders df = Inr df' \<Longrightarrow> feature_names s = Some names
     \<Longrightarrow> (\<And>r. r \<in> set df \<Longrightarrow> positioned names r) \<Longrightarrow> r \<in> set df' \<Longrightarrow> positioned names r"
proof (induction orders arbitrary: df)
  case Nil
  then show ?case by simp
next
  case (Cons t orders)
  from Cons.prems(1,2) obtain df1 where df1: "fill_features s names t names df = Inr df1"
    "fill_orders s orders df1 = Inr df'"
    by (auto split: sum.splits)
  have "\<And>r. r \<in> set df1 \<Longrightarrow> positioned names r"
    using fill_features_positioned [OF df1(1)] Cons.prems(3) by blast
  from Cons.IH [OF df1(2) Cons.prems(2) this Cons.prems(4)] show ?case by simp
qed

lemma in_declared_rows:
  "(r \<in> set (declared_rows cfg))
     = (\<exists>j i. j < length cfg \<and> i < length (step_keys (cfg ! j)) \<and> r = declared_row cfg j i)"
proof
  assume "r \<in> set (declared_rows cfg)"
  then obtain rows where rows: "r \<in> set rows"
    "rows \<in> set (map (\<lambda>j. map (declared_row cfg j) [0 ..< length (step_keys (cfg ! j))])
                     [0 ..< length cfg])"
    unfolding declared_rows_def set_concat by blast
  from rows(2) obtain j where j: "j < length cfg"
    "rows = map (declared_row cfg j) [0 ..< length (step_keys (cfg ! j))]"
    by auto
  from rows(1) j(2) obtain i where "i < length (step_keys (cfg ! j))" "r = declared_row cfg j i"
    by auto
  with j(1) show "\<exists>j i. j < length cfg \<and> i < length (step_keys (cfg ! j)) \<and> r = declared_row cfg j i"
    by blast
next
  assume "\<exists>j i. j < length cfg \<and> i < length (step_keys (cfg ! j)) \<and> r = declared_row cfg j i"
  then obtain j i where ji: "j < length cfg" "i < length (step_keys (cfg ! j))"
    "r = declared_row cfg j i" by blast
  have "r \<in> set (map (declared_row cfg j) [0 ..< length (step_keys (cfg ! j))])"
    using ji(2,3) by simp
  moreover have "map (declared_row cfg j) [0 ..< length (step_keys (cfg ! j))]
      \<in> set (map (\<lambda>j. map (declared_row cfg j) [0 ..< length (step_keys (cfg ! j))])
                [0 ..< length cfg])"
    using ji(1) by simp
  ultimately show "r \<in> set (declared_rows cfg)"
    unfolding declared_rows_def set_concat by blast
qed

lemma declared_rows_positioned:
  assumes "map_err config_name cfg = Inr names" "r \<in> set (declared_rows cfg)"
  shows "positioned names r"
proof -
  from assms(2) obtain j i where ji: "j < length cfg" "r = declared_row cfg j i"
    by (auto simp: in_declared_rows)
  from map_err_nth [OF assms(1)] ji(1) have "length names = length cfg"
    "config_name (cfg ! j) = Inr (names ! j)" by simp_all
  with ji show ?thesis by (simp add: positioned_def declared_row_def)
qed

lemma dict_get_default_active:
  "k \<noteq> ''active'' \<Longrightarrow> dict_get (default_active c) k = dict_get c k"
  by (simp add: default_active_eq dict_get_def map_add_def split: option.splits)

lemma config_name_default_active: "config_name (default_active c) = config_name c"
  by (simp add: config_name_def dict_get_default_active)

lemma step_keys_default_active: "step_keys (default_active c) = step_keys c"
  by (simp add: default_active_eq step_keys_def)

text \<open>
  The keys the code takes for steps are the keys of the specification's step
  declarations, in the same order; so the code counts the steps as the specification
  does.
\<close>

lemma step_keys_step_declarations: "step_keys c = map fst (step_declarations c)"
  by (induction c)
     (auto simp: step_keys_def step_declarations_def attribute_keys_def inert_keys_def)

lemma length_step_keys: "length (step_keys c) = step_count c"
  by (simp add: step_keys_step_declarations step_count_def)

lemma step_count_default_active: "step_count (default_active c) = step_count c"
  using step_keys_default_active [of c] by (simp only: length_step_keys [symmetric])

lemma sort_key_plan_order: "sorted_wrt plan_order (sort_key plan_key df)"
proof -
  have "sorted (map plan_key (sort_key plan_key df))" by (rule sorted_sort_key)
  then have "sorted_wrt (\<lambda>a b. plan_key a \<le> plan_key b) (sort_key plan_key df)"
    by (simp only: sorted_map)
  then show ?thesis
  proof (rule sorted_wrt_mono_rel [rotated])
    fix a b
    assume "plan_key a \<le> plan_key b"
    then show "plan_order a b" unfolding plan_key_def plan_order_def by auto
  qed
qed

lemma create_action_plan_positioned:
  assumes "interpret_config s0 = (Inr (), s)" "create_action_plan s = Inr plan" "r \<in> set plan"
  shows "feature_order r < length (features_config s0)
         \<and> config_name (features_config s0 ! feature_order r) = Inr (feature_name r)"
proof -
  from interpret_config_success [OF assms(1)] obtain names where
    cfg: "features_config s = map default_active (features_config s0)" and
    names: "map_err config_name (features_config s) = Inr names" "feature_names s = Some names"
    by blast
  from assms(2) obtain df df' where
    df: "flat_rows (features_config s) = Inr df"
    "fill_orders s (unique (map transform_order df)) df = Inr df'" "plan = sort_key plan_key df'"
    by (auto simp: create_action_plan_def split: sum.splits)
  from df(1) have "df = declared_rows (features_config s)"
    using flat_rows_closed [OF well_formed_after_interpret_config [OF assms(1)]] by simp
  then have "\<And>r. r \<in> set df \<Longrightarrow> positioned names r"
    using declared_rows_positioned [OF names(1)] by simp
  moreover from assms(3) df(3) have "r \<in> set df'" by simp
  ultimately have p: "positioned names r"
    using fill_orders_positioned [OF df(2) names(2)] by blast
  from map_err_nth [OF names(1)] have l: "length names = length (features_config s)"
    and n: "\<And>i. i < length (features_config s) \<Longrightarrow> config_name (features_config s ! i) = Inr (names ! i)"
    by simp_all
  from p l have lt: "feature_order r < length (features_config s0)"
    by (simp add: positioned_def cfg)
  then have "config_name (features_config s ! feature_order r) = Inr (names ! feature_order r)"
    using n cfg by simp
  then have "config_name (features_config s0 ! feature_order r) = Inr (feature_name r)"
    using p lt by (simp add: cfg config_name_default_active positioned_def)
  with lt show ?thesis by simp
qed

text \<open>
  C4.  After a successful \<open>__interpret_config\<close>, the rows of a compiled action plan are
  ordered by transform order, and within one transform order by feature order; and the
  feature order of every row is the position, in the configuration list, of the feature
  the row names.
\<close>

theorem action_plan_is_sorted:
  assumes "interpret_config s0 = (Inr (), s)" "create_action_plan s = Inr plan"
  shows "sorted_wrt plan_order plan
         \<and> (\<forall>r \<in> set plan.
               feature_order r < length (features_config s0)
               \<and> config_name (features_config s0 ! feature_order r) = Inr (feature_name r))"
proof -
  from assms(2) obtain df' where "plan = sort_key plan_key df'"
    by (auto simp: create_action_plan_def split: sum.splits)
  then have "sorted_wrt plan_order plan" by (simp add: sort_key_plan_order)
  then show ?thesis using create_action_plan_positioned [OF assms] by blast
qed

lemma staged_interpret_config:
  "interpret_config (PreProcessor_init staged_config)
     = (Inr (), snd (interpret_config (PreProcessor_init staged_config)))"
  by (simp add: facade_defs staged_config_def)

lemma staged_feature_names:
  "feature_names (snd (interpret_config (PreProcessor_init staged_config)))
     = Some [''a'', ''b'', ''c'']"
  by (simp add: facade_defs staged_config_def)

lemma staged_create_action_plan:
  "create_action_plan (snd (interpret_config (PreProcessor_init staged_config))) = Inr staged_plan"
  by (simp add: facade_defs attr_get_def staged_config_def staged_plan_def)

theorem action_plan_is_sorted_witness:
  "interpret_config (PreProcessor_init staged_config)
     = (Inr (), snd (interpret_config (PreProcessor_init staged_config)))
   \<and> create_action_plan (snd (interpret_config (PreProcessor_init staged_config)))
       = Inr staged_plan
   \<and> sorted_wrt plan_order staged_plan"
  using action_plan_is_sorted [OF staged_interpret_config staged_create_action_plan]
    staged_interpret_config staged_create_action_plan
  by simp

section \<open>The action plan as a grid\<close>

lemma fill_features_frame:
  assumes ctx: "plan_ctx s cfg names" and tm: "t < m"
  shows "set cols \<subseteq> set names \<Longrightarrow> frame_inv cfg names m df \<Longrightarrow>
     \<exists>df'. fill_features s names t cols df = Inr df' \<and> frame_inv cfg names m df'
          \<and> set df \<subseteq> set df'
          \<and> (\<forall>col \<in> set cols. \<exists>r \<in> set df'. feature_name r = col \<and> transform_order r = t)"
proof (induction cols arbitrary: df)
  case Nil
  then show ?case by simp
next
  case (Cons col cols)
  from Cons.prems(1) have col: "col \<in> set names" and cols: "set cols \<subseteq> set names" by auto
  show ?case
  proof (cases "length (filter (\<lambda>r. feature_name r = col \<and> transform_order r = t) df) = 0")
    case False
    then have eq: "fill_features s names t (col # cols) df = fill_features s names t cols df"
      by simp
    from False obtain r0 where r0: "r0 \<in> set df" "feature_name r0 = col" "transform_order r0 = t"
      by (auto simp: filter_empty_conv)
    from Cons.IH [OF cols Cons.prems(2)] obtain df' where df':
      "fill_features s names t cols df = Inr df'" "frame_inv cfg names m df'" "set df \<subseteq> set df'"
      "\<forall>c \<in> set cols. \<exists>r \<in> set df'. feature_name r = c \<and> transform_order r = t" by blast
    from r0 df'(3) have "\<exists>r \<in> set df'. feature_name r = col \<and> transform_order r = t" by blast
    with df' eq show ?thesis by auto
  next
    case True
    then have none: "\<And>r. r \<in> set df \<Longrightarrow> \<not> (feature_name r = col \<and> transform_order r = t)"
      by (auto simp: filter_empty_conv)
    from index_of_Some [OF col] obtain j where j: "index_of names col = Some j" "j < length names"
      "names ! j = col" by blast
    from ctx col obtain a ty where a: "attr_get (feature_active s) col = Inr a"
      and ty: "attr_get (feature_types s) col = Inr ty" unfolding plan_ctx_def by blast
    define r0 where "r0 = \<lparr>feature_order = j, feature_name = col, active = a, type' = ty,
         transform_order = t, key = ''transformation'', val = VStr ''identity''\<rparr>"
    have eq: "fill_features s names t (col # cols) df = fill_features s names t cols (df @ [r0])"
      using True j(1) a ty by (simp add: r0_def)
    from ctx have len: "length names = length cfg" unfolding plan_ctx_def by simp
    have inv: "frame_inv cfg names m df" by fact
    have notdecl: "\<not> t < length (step_keys (cfg ! j))"
    proof
      assume lt: "t < length (step_keys (cfg ! j))"
      then have "declared_row cfg j t \<in> set (declared_rows cfg)"
        using j(2) len by (auto simp: in_declared_rows)
      then have "declared_row cfg j t \<in> set df" using inv unfolding frame_inv_def by blast
      moreover have "feature_name (declared_row cfg j t) = col"
        using ctx j(2,3) len unfolding plan_ctx_def by (simp add: declared_row_def)
      moreover have "transform_order (declared_row cfg j t) = t" by (simp add: declared_row_def)
      ultimately show False using none by blast
    qed
    have pr0: "plan_inv cfg names m r0"
      using j(2,3) len tm notdecl by (simp add: plan_inv_def r0_def)
    have knew: "plan_key r0 \<notin> plan_key ` set df"
    proof
      assume "plan_key r0 \<in> plan_key ` set df"
      then obtain r where r: "r \<in> set df" "plan_key r = plan_key r0" by auto
      then have "feature_order r = j" "transform_order r = t" by (simp_all add: plan_key_def r0_def)
      moreover from r(1) inv have "plan_inv cfg names m r" unfolding frame_inv_def by blast
      ultimately have "feature_name r = col" "transform_order r = t"
        using j(3) by (simp_all add: plan_inv_def)
      with none [OF r(1)] show False by simp
    qed
    have inv': "frame_inv cfg names m (df @ [r0])"
      using inv pr0 knew unfolding frame_inv_def by auto
    from Cons.IH [OF cols inv'] obtain df' where df':
      "fill_features s names t cols (df @ [r0]) = Inr df'" "frame_inv cfg names m df'"
      "set (df @ [r0]) \<subseteq> set df'"
      "\<forall>c \<in> set cols. \<exists>r \<in> set df'. feature_name r = c \<and> transform_order r = t" by blast
    have "r0 \<in> set df'" using df'(3) by auto
    moreover have "feature_name r0 = col" "transform_order r0 = t" by (simp_all add: r0_def)
    ultimately have "\<exists>r \<in> set df'. feature_name r = col \<and> transform_order r = t" by blast
    moreover have "set df \<subseteq> set df'" using df'(3) by auto
    ultimately show ?thesis using df' eq by auto
  qed
qed

lemma fill_orders_frame:
  assumes ctx: "plan_ctx s cfg names" and fn: "feature_names s = Some names"
  shows "(\<And>t. t \<in> set orders \<Longrightarrow> t < m) \<Longrightarrow> frame_inv cfg names m df \<Longrightarrow>
     \<exists>df'. fill_orders s orders df = Inr df' \<and> frame_inv cfg names m df'
          \<and> set df \<subseteq> set df'
          \<and> (\<forall>t \<in> set orders. \<forall>col \<in> set names.
                \<exists>r \<in> set df'. feature_name r = col \<and> transform_order r = t)"
proof (induction orders arbitrary: df)
  case Nil
  then show ?case by simp
next
  case (Cons t orders)
  have tm: "t < m" using Cons.prems(1) by simp
  from fill_features_frame [OF ctx tm subset_refl Cons.prems(2)] obtain df1 where df1:
    "fill_features s names t names df = Inr df1" "frame_inv cfg names m df1" "set df \<subseteq> set df1"
    "\<forall>col \<in> set names. \<exists>r \<in> set df1. feature_name r = col \<and> transform_order r = t" by blast
  have "\<And>t. t \<in> set orders \<Longrightarrow> t < m" using Cons.prems(1) by simp
  from Cons.IH [OF this df1(2)] obtain df' where df':
    "fill_orders s orders df1 = Inr df'" "frame_inv cfg names m df'" "set df1 \<subseteq> set df'"
    "\<forall>t \<in> set orders. \<forall>col \<in> set names.
        \<exists>r \<in> set df'. feature_name r = col \<and> transform_order r = t" by blast
  have eq: "fill_orders s (t # orders) df = Inr df'" using fn df1(1) df'(1) by simp
  have "\<forall>col \<in> set names. \<exists>r \<in> set df'. feature_name r = col \<and> transform_order r = t"
    using df1(4) df'(3) by blast
  with df' df1(3) eq show ?case by auto
qed

lemma less_foldr_max: "(t < foldr max xs (0::nat)) = (\<exists>x \<in> set xs. t < x)"
  by (induction xs) auto

lemma less_max_steps:
  "(t < max_steps cfg) = (\<exists>j < length cfg. t < length (step_keys (cfg ! j)))"
proof -
  have "(t < max_steps cfg) = (\<exists>c \<in> set cfg. t < length (step_keys c))"
    by (simp add: max_steps_def less_foldr_max length_step_keys)
  also have "\<dots> = (\<exists>j < length cfg. t < length (step_keys (cfg ! j)))"
    by (metis in_set_conv_nth)
  finally show ?thesis .
qed

lemma distinct_concat_tagged:
  assumes "distinct js" "\<And>j. j \<in> set js \<Longrightarrow> distinct (h j)"
    "\<And>j x. j \<in> set js \<Longrightarrow> x \<in> set (h j) \<Longrightarrow> tag x = j"
  shows "distinct (concat (map h js))"
  using assms
proof (induction js)
  case Nil
  then show ?case by simp
next
  case (Cons j js)
  have d: "distinct (concat (map h js))" using Cons by simp
  have "set (h j) \<inter> set (concat (map h js)) = {}"
  proof (rule ccontr)
    assume "set (h j) \<inter> set (concat (map h js)) \<noteq> {}"
    then obtain x j' where x: "x \<in> set (h j)" "j' \<in> set js" "x \<in> set (h j')" by auto
    then have "tag x = j" "tag x = j'" using Cons.prems(3) by simp_all
    with x(2) Cons.prems(1) show False by simp
  qed
  with d Cons.prems(2) show ?case by simp
qed

lemma plan_key_declared_row: "plan_key (declared_row cfg j i) = (i, j)"
  by (simp add: plan_key_def declared_row_def)

lemma distinct_declared_keys: "distinct (map plan_key (declared_rows cfg))"
proof -
  have "map plan_key (declared_rows cfg)
          = concat (map (\<lambda>j. map (\<lambda>i. (i, j)) [0 ..< length (step_keys (cfg ! j))])
                      [0 ..< length cfg])"
    by (simp add: declared_rows_def map_concat comp_def plan_key_declared_row)
  moreover have "distinct (concat (map (\<lambda>j. map (\<lambda>i. (i, j)) [0 ..< length (step_keys (cfg ! j))])
                      [0 ..< length cfg]))"
    by (rule distinct_concat_tagged [where tag = snd]) (auto simp: distinct_map inj_on_def)
  ultimately show ?thesis by simp
qed

lemma frame_inv_declared:
  assumes "plan_ctx s cfg names"
  shows "frame_inv cfg names (max_steps cfg) (declared_rows cfg)"
proof -
  have "plan_inv cfg names (max_steps cfg) r" if "r \<in> set (declared_rows cfg)" for r
  proof -
    from that obtain j i where ji: "j < length cfg" "i < length (step_keys (cfg ! j))"
      "r = declared_row cfg j i" by (auto simp: in_declared_rows)
    from ji(1,2) have "i < max_steps cfg" by (auto simp: less_max_steps)
    moreover have "feature_name r = names ! j"
      using assms ji(1,3) unfolding plan_ctx_def by (simp add: declared_row_def)
    moreover have "feature_order r = j" "transform_order r = i"
      using ji(3) by (simp_all add: declared_row_def)
    ultimately show ?thesis using ji unfolding plan_inv_def by simp
  qed
  then show ?thesis unfolding frame_inv_def using distinct_declared_keys by blast
qed

lemma declared_orders: "set (map transform_order (declared_rows cfg)) = {t. t < max_steps cfg}"
proof -
  have "transform_order ` set (declared_rows cfg)
          = {t. \<exists>j < length cfg. t < length (step_keys (cfg ! j))}"
  proof (rule set_eqI)
    fix t
    show "(t \<in> transform_order ` set (declared_rows cfg))
            = (t \<in> {t. \<exists>j < length cfg. t < length (step_keys (cfg ! j))})"
    proof
      assume "t \<in> transform_order ` set (declared_rows cfg)"
      then obtain r where "r \<in> set (declared_rows cfg)" "t = transform_order r" by auto
      then obtain j i where "j < length cfg" "i < length (step_keys (cfg ! j))"
        "r = declared_row cfg j i" by (auto simp: in_declared_rows)
      with \<open>t = transform_order r\<close> show "t \<in> {t. \<exists>j < length cfg. t < length (step_keys (cfg ! j))}"
        by (auto simp: declared_row_def)
    next
      assume "t \<in> {t. \<exists>j < length cfg. t < length (step_keys (cfg ! j))}"
      then obtain j where j: "j < length cfg" "t < length (step_keys (cfg ! j))" by auto
      then have "declared_row cfg j t \<in> set (declared_rows cfg)" by (auto simp: in_declared_rows)
      moreover have "transform_order (declared_row cfg j t) = t" by (simp add: declared_row_def)
      ultimately show "t \<in> transform_order ` set (declared_rows cfg)" by force
    qed
  qed
  then show ?thesis by (simp add: less_max_steps)
qed

lemma attr_get_key: "col \<in> fst ` set d \<Longrightarrow> \<exists>v. attr_get (Some d) col = Inr v"
proof -
  assume "col \<in> fst ` set d"
  then obtain v where "map_of d col = Some v" by (metis domD dom_map_of_conv_image_fst)
  then show ?thesis by (simp add: attr_get_def dict_get_def)
qed

lemma plan_ctx_after_interpret_config:
  assumes "interpret_config s0 = (Inr (), s)" "feature_names s = Some names" "distinct names"
  shows "plan_ctx s (features_config s) names"
proof -
  from interpret_config_success(2) [OF assms(1)] assms(2) obtain act tys where
    names: "map_err config_name (features_config s) = Inr names" and
    act: "dict_comprehension ''active'' (features_config s) [] = Inr act"
         "feature_active s = Some act" and
    tys: "dict_comprehension ''type'' (features_config s) [] = Inr tys"
         "feature_types s = Some tys"
    by auto
  from dict_comprehension_keys [OF act(1) names] have ka: "fst ` set act = set names" by simp
  from dict_comprehension_keys [OF tys(1) names] have kt: "fst ` set tys = set names" by simp
  have "\<forall>col \<in> set names. (\<exists>a. attr_get (feature_active s) col = Inr a)
                              \<and> (\<exists>t. attr_get (feature_types s) col = Inr t)"
    using ka kt act(2) tys(2) attr_get_key by simp
  moreover from map_err_nth [OF names] have "length names = length (features_config s)"
    "\<forall>j < length (features_config s). config_name (features_config s ! j) = Inr (names ! j)"
    by simp_all
  ultimately show ?thesis using assms(3) unfolding plan_ctx_def by blast
qed

lemma sorted_product:
  fixes xs :: "nat list" and ys :: "nat list"
  assumes "sorted xs" "distinct xs" "sorted ys"
  shows "sorted (List.product xs ys)"
  using assms(1,2)
proof (induction xs)
  case Nil
  then show ?case by simp
next
  case (Cons x xs)
  have 1: "sorted (map (Pair x) ys)"
    using assms(3) by (simp add: sorted_map sorted_wrt_iff_nth_less sorted_iff_nth_mono_less)
  have 2: "sorted (List.product xs ys)" using Cons by simp
  have 3: "\<And>a b. a \<in> set (map (Pair x) ys) \<Longrightarrow> b \<in> set (List.product xs ys) \<Longrightarrow> a \<le> b"
  proof -
    fix a b :: "nat \<times> nat"
    assume "a \<in> set (map (Pair x) ys)" "b \<in> set (List.product xs ys)"
    then have "fst a = x" "fst b \<in> set xs" by auto
    with Cons.prems have "fst a < fst b" by (auto simp: le_less)
    then show "a \<le> b" by (cases a; cases b) simp
  qed
  from 1 2 3 show ?case by (simp add: sorted_append)
qed

lemma distinct_map_sort_key: "distinct (map f (sort_key f xs)) = distinct (map f xs)"
  by (induction xs) (simp_all add: distinct_insort_key)

lemma filter_product:
  assumes "distinct xs" "t \<in> set xs"
  shows "filter (\<lambda>k. fst k = t) (List.product xs ys) = map (Pair t) ys"
  using assms
proof (induction xs)
  case Nil
  then show ?case by simp
next
  case (Cons x xs)
  show ?case
  proof (cases "x = t")
    case True
    then have "t \<notin> set xs" using Cons.prems(1) by simp
    then have "filter (\<lambda>k. fst k = t) (List.product xs ys) = []"
      by (auto simp: filter_empty_conv)
    moreover have "filter (\<lambda>k. fst k = t) (map (Pair t) ys) = map (Pair t) ys"
      by (simp add: filter_map comp_def)
    ultimately show ?thesis using True by simp
  next
    case False
    then have "t \<in> set xs" using Cons.prems(2) by simp
    moreover have "filter (\<lambda>k. fst k = t) (map (Pair x) ys) = []"
      using False by (simp add: filter_empty_conv)
    ultimately show ?thesis using Cons by simp
  qed
qed

lemma max_steps_default_active: "max_steps (map default_active cfg) = max_steps cfg"
  by (simp add: max_steps_def comp_def step_count_default_active)

lemma plan_inv_declared_or_identity:
  assumes "plan_inv (map default_active cfg) names m r" "length names = length cfg"
    "\<forall>j < length cfg. config_name (cfg ! j) = Inr (names ! j)"
  shows "declared_or_identity cfg r"
proof -
  let ?j = "feature_order r" and ?i = "transform_order r"
  from assms(1) have j: "?j < length cfg" and n: "feature_name r = names ! ?j"
    by (simp_all add: plan_inv_def)
  have cn: "config_name (cfg ! ?j) = Inr (feature_name r)" using assms(3) j n by simp
  have sk: "step_keys (map default_active cfg ! ?j) = step_keys (cfg ! ?j)"
    using j by (simp add: step_keys_default_active)
  have sc: "length (step_keys (cfg ! ?j)) = step_count (cfg ! ?j)" by (rule length_step_keys)
  show ?thesis
  proof (cases "?i < length (step_keys (cfg ! ?j))")
    case True
    then have r: "r = declared_row (map default_active cfg) ?j ?i"
      using assms(1) sk by (simp add: plan_inv_def)
    let ?k = "step_keys (cfg ! ?j) ! ?i"
    have k: "key r = ?k" using r sk by (metis plan_row.select_convs(6) declared_row_def)
    have kd: "?k = fst (step_declarations (cfg ! ?j) ! ?i)"
      using True by (simp add: step_keys_step_declarations)
    have kin: "?k \<in> set (step_keys (cfg ! ?j))" using True by simp
    then have ka: "?k \<noteq> ''active''" by (auto simp: step_keys_def)
    have "val r = projr (dict_get (map default_active cfg ! ?j) ?k)"
      using r sk by (metis plan_row.select_convs(7) declared_row_def)
    then have "val r = projr (dict_get (cfg ! ?j) ?k)"
      using j ka by (simp add: dict_get_default_active)
    then have "dict_get (cfg ! ?j) ?k = Inr (val r)" using dict_get_step_key [OF kin] by simp
    with True k kd cn sc show ?thesis by (simp add: declared_or_identity_def)
  next
    case False
    then have "key r = ''transformation'' \<and> val r = VStr ''identity''"
      using assms(1) sk by (simp add: plan_inv_def)
    with False cn sc show ?thesis by (simp add: declared_or_identity_def)
  qed
qed

lemma create_action_plan_frame:
  assumes ic: "interpret_config s0 = (Inr (), s)" and fn: "feature_names s = Some names"
    and dn: "distinct names"
  shows "\<exists>df'. create_action_plan s = Inr (sort_key plan_key df')
           \<and> frame_inv (features_config s) names (max_steps (features_config s)) df'
           \<and> plan_key ` set df'
               = {t. t < max_steps (features_config s)} \<times> {j. j < length (features_config s)}"
proof -
  let ?cfg = "features_config s" and ?m = "max_steps (features_config s)"
  have ctx: "plan_ctx s ?cfg names" by (rule plan_ctx_after_interpret_config [OF ic fn dn])
  have flat: "flat_rows ?cfg = Inr (declared_rows ?cfg)"
    by (rule flat_rows_closed [OF well_formed_after_interpret_config [OF ic]])
  let ?orders = "unique (map transform_order (declared_rows ?cfg))"
  have orders: "set ?orders = {t. t < ?m}" by (simp only: set_unique declared_orders)
  then have "\<And>t. t \<in> set ?orders \<Longrightarrow> t < ?m" by simp
  from fill_orders_frame [OF ctx fn this frame_inv_declared [OF ctx]] obtain df' where df':
    "fill_orders s ?orders (declared_rows ?cfg) = Inr df'" "frame_inv ?cfg names ?m df'"
    "\<forall>t \<in> set ?orders. \<forall>col \<in> set names.
        \<exists>r \<in> set df'. feature_name r = col \<and> transform_order r = t" by blast
  have cap: "create_action_plan s = Inr (sort_key plan_key df')"
    using flat df'(1) by (simp add: create_action_plan_def)
  from ctx have len: "length names = length ?cfg" unfolding plan_ctx_def by simp
  have "plan_key ` set df' = {t. t < ?m} \<times> {j. j < length ?cfg}"
  proof (rule set_eqI)
    fix k :: "nat \<times> nat"
    obtain t j where k: "k = (t, j)" by (cases k)
    show "(k \<in> plan_key ` set df') = (k \<in> {t. t < ?m} \<times> {j. j < length ?cfg})"
    proof
      assume "k \<in> plan_key ` set df'"
      then obtain r where r: "r \<in> set df'" "plan_key r = k" by auto
      then have "plan_inv ?cfg names ?m r" using df'(2) unfolding frame_inv_def by blast
      then have "transform_order r < ?m" "feature_order r < length ?cfg"
        by (simp_all add: plan_inv_def)
      with r(2) k show "k \<in> {t. t < ?m} \<times> {j. j < length ?cfg}" by (auto simp: plan_key_def)
    next
      assume "k \<in> {t. t < ?m} \<times> {j. j < length ?cfg}"
      with k have t: "t < ?m" and j: "j < length ?cfg" by simp_all
      from t orders have "t \<in> set ?orders" by simp
      moreover from j len have "names ! j \<in> set names" by simp
      ultimately obtain r where r: "r \<in> set df'" "feature_name r = names ! j"
        "transform_order r = t" using df'(3) by blast
      then have "plan_inv ?cfg names ?m r" using df'(2) unfolding frame_inv_def by blast
      then have "feature_order r < length names" "names ! feature_order r = names ! j"
        using r(2) len by (simp_all add: plan_inv_def)
      then have "feature_order r = j" using dn j len by (simp add: nth_eq_iff_index_eq)
      with r(3) k have "plan_key r = k" by (simp add: plan_key_def)
      with r(1) show "k \<in> plan_key ` set df'" by blast
    qed
  qed
  with cap df'(2) show ?thesis by blast
qed

lemma sorted_keys_are_grid:
  assumes "distinct (map plan_key df)" "plan_key ` set df = {t. t < m} \<times> {j. j < n}"
  shows "map plan_key (sort_key plan_key df) = List.product [0 ..< m] [0 ..< n]"
proof (rule sorted_distinct_set_unique)
  show "sorted (map plan_key (sort_key plan_key df))" by (rule sorted_sort_key)
  show "distinct (map plan_key (sort_key plan_key df))"
    using assms(1) by (simp only: distinct_map_sort_key)
  show "sorted (List.product [0 ..< m] [0 ..< n])" by (rule sorted_product) simp_all
  show "distinct (List.product [0 ..< m] [0 ..< n])" by (rule distinct_product) simp_all
  show "set (map plan_key (sort_key plan_key df)) = set (List.product [0 ..< m] [0 ..< n])"
    using assms(2) by (auto simp: set_sort)
qed

text \<open>
  C3.  For a configuration of \<open>N\<close> features with distinct names (the data model's
  invariant), each with a name and a type, whose step counts \<open>c1..cN\<close> are the numbers of
  step declarations the specification gives them (the pairs of a feature other than its
  three attributes and the two inert keys), the action plan is compiled without error
  and its rows are, in order, exactly one row for every pair of a stage below
  \<open>max(c1..cN)\<close> and a feature position below \<open>N\<close>: the stages are the numbers below the
  maximum (none when every count is 0), every stage has exactly \<open>N\<close> rows, one per
  feature in the order of the configuration, and the row of a feature at a stage is its
  step declaration at that position when it has one and otherwise the synthesized row
  with key \<open>transformation\<close> and value \<open>identity\<close>.
\<close>

theorem action_plan_is_grid:
  assumes "interpret_config s0 = (Inr (), s)" "feature_names s = Some names" "distinct names"
  shows "\<exists>plan. create_action_plan s = Inr plan
           \<and> map plan_key plan
               = List.product [0 ..< max_steps (features_config s0)]
                   [0 ..< length (features_config s0)]
           \<and> transform_order ` set plan = {t. t < max_steps (features_config s0)}
           \<and> (\<forall>t < max_steps (features_config s0).
                 map feature_order (filter (\<lambda>r. transform_order r = t) plan)
                   = [0 ..< length (features_config s0)])
           \<and> (\<forall>r \<in> set plan. declared_or_identity (features_config s0) r)"
proof -
  let ?cfg0 = "features_config s0"
  let ?m = "max_steps ?cfg0" and ?n = "length ?cfg0"
  have cfg: "features_config s = map default_active ?cfg0"
    by (rule interpret_config_success(1) [OF assms(1)])
  have m: "max_steps (features_config s) = ?m" by (simp add: cfg max_steps_default_active)
  have n: "length (features_config s) = ?n" by (simp add: cfg)
  from create_action_plan_frame [OF assms] obtain df' where df':
    "create_action_plan s = Inr (sort_key plan_key df')"
    "frame_inv (map default_active ?cfg0) names ?m df'"
    "plan_key ` set df' = {t. t < ?m} \<times> {j. j < ?n}"
    unfolding m n cfg [symmetric] using cfg m by auto
  let ?plan = "sort_key plan_key df'"
  from df'(2) have dk: "distinct (map plan_key df')" unfolding frame_inv_def by blast
  have keys: "map plan_key ?plan = List.product [0 ..< ?m] [0 ..< ?n]"
    by (rule sorted_keys_are_grid [OF dk df'(3)])
  have stages: "transform_order ` set ?plan = {t. t < ?m}"
  proof -
    have "transform_order ` set ?plan = fst ` plan_key ` set df'"
      by (simp add: image_image plan_key_def)
    also have "\<dots> = fst ` ({t. t < ?m} \<times> {j. j < ?n})" by (simp only: df'(3))
    also have "\<dots> = {t. t < ?m}"
    proof (cases "?n = 0")
      case True
      then have "?m = 0" by (simp add: max_steps_def)
      with True show ?thesis by simp
    next
      case False
      then show ?thesis by (auto simp: fst_image_times)
    qed
    finally show ?thesis .
  qed
  have rows: "map feature_order (filter (\<lambda>r. transform_order r = t) ?plan) = [0 ..< ?n]"
    if "t < ?m" for t
  proof -
    have "map feature_order (filter (\<lambda>r. transform_order r = t) ?plan)
            = map snd (filter (\<lambda>k. fst k = t) (map plan_key ?plan))"
      by (simp add: filter_map comp_def plan_key_def)
    also have "\<dots> = map snd (map (Pair t) [0 ..< ?n])"
    proof -
      have "filter (\<lambda>k. fst k = t) (List.product [0 ..< ?m] [0 ..< ?n]) = map (Pair t) [0 ..< ?n]"
        using that by (intro filter_product) simp_all
      then show ?thesis by (simp only: keys)
    qed
    also have "\<dots> = [0 ..< ?n]" by (simp add: comp_def)
    finally show ?thesis .
  qed
  have ctx: "plan_ctx s (features_config s) names"
    by (rule plan_ctx_after_interpret_config [OF assms])
  then have len: "length names = ?n"
    and nm: "\<forall>j < ?n. config_name (?cfg0 ! j) = Inr (names ! j)"
    unfolding plan_ctx_def cfg by (simp_all add: config_name_default_active)
  have each: "declared_or_identity ?cfg0 r" if "r \<in> set ?plan" for r
  proof -
    from that have "r \<in> set df'" by simp
    then have "plan_inv (map default_active ?cfg0) names ?m r"
      using df'(2) unfolding frame_inv_def by blast
    then show ?thesis using len nm by (rule plan_inv_declared_or_identity)
  qed
  from df'(1) keys stages rows each show ?thesis by blast
qed

lemma reserved_interpret_config:
  "interpret_config (PreProcessor_init reserved_config)
     = (Inr (), snd (interpret_config (PreProcessor_init reserved_config)))"
  by (simp add: facade_defs reserved_config_def)

lemma reserved_feature_names:
  "feature_names (snd (interpret_config (PreProcessor_init reserved_config))) = Some [''a'', ''b'']"
  by (simp add: facade_defs reserved_config_def)

lemma reserved_create_action_plan:
  "create_action_plan (snd (interpret_config (PreProcessor_init reserved_config)))
     = Inr reserved_plan"
  by (simp add: facade_defs attr_get_def reserved_config_def reserved_plan_def)

lemma encoded_interpret_config:
  "interpret_config (PreProcessor_init encoded_config)
     = (Inr (), snd (interpret_config (PreProcessor_init encoded_config)))"
  by (simp add: facade_defs encoded_config_def)

lemma encoded_feature_names:
  "feature_names (snd (interpret_config (PreProcessor_init encoded_config))) = Some [''a'']"
  by (simp add: facade_defs encoded_config_def)

lemmas count_defs =
  max_steps_def step_count_def step_declarations_def attribute_keys_def inert_keys_def

theorem action_plan_is_grid_witness:
  "interpret_config (PreProcessor_init reserved_config)
     = (Inr (), snd (interpret_config (PreProcessor_init reserved_config)))
   \<and> feature_names (snd (interpret_config (PreProcessor_init reserved_config)))
       = Some [''a'', ''b'']
   \<and> distinct [''a'', ''b'']
   \<and> map step_count reserved_config = [1, 0]
   \<and> max_steps (features_config (PreProcessor_init reserved_config)) = 1
   \<and> length (features_config (PreProcessor_init reserved_config)) = 2
   \<and> create_action_plan (snd (interpret_config (PreProcessor_init reserved_config)))
       = Inr reserved_plan
   \<and> map plan_key reserved_plan
       = List.product [0 ..< max_steps (features_config (PreProcessor_init reserved_config))]
           [0 ..< length (features_config (PreProcessor_init reserved_config))]
   \<and> transform_order ` set reserved_plan
       = {t. t < max_steps (features_config (PreProcessor_init reserved_config))}
   \<and> list_all (declared_or_identity (features_config (PreProcessor_init reserved_config)))
       reserved_plan
   \<and> interpret_config (PreProcessor_init encoded_config)
       = (Inr (), snd (interpret_config (PreProcessor_init encoded_config)))
   \<and> feature_names (snd (interpret_config (PreProcessor_init encoded_config))) = Some [''a'']
   \<and> map step_count encoded_config = [0]
   \<and> max_steps (features_config (PreProcessor_init encoded_config)) = 0
   \<and> create_action_plan (snd (interpret_config (PreProcessor_init encoded_config))) = Inr []"
proof -
  have d: "distinct [''a'', ''b'']" by simp
  have c: "map step_count reserved_config = [1, 0]"
    by (simp add: count_defs reserved_config_def)
  have m: "max_steps (features_config (PreProcessor_init reserved_config)) = 1"
    by (simp add: count_defs PreProcessor_init_def reserved_config_def)
  have n: "length (features_config (PreProcessor_init reserved_config)) = 2"
    by (simp add: PreProcessor_init_def reserved_config_def)
  from action_plan_is_grid [OF reserved_interpret_config reserved_feature_names d]
  obtain plan where plan:
    "create_action_plan (snd (interpret_config (PreProcessor_init reserved_config))) = Inr plan"
    "map plan_key plan
       = List.product [0 ..< max_steps (features_config (PreProcessor_init reserved_config))]
           [0 ..< length (features_config (PreProcessor_init reserved_config))]"
    "transform_order ` set plan
       = {t. t < max_steps (features_config (PreProcessor_init reserved_config))}"
    "\<forall>r \<in> set plan.
       declared_or_identity (features_config (PreProcessor_init reserved_config)) r"
    by blast
  from plan(1) have p: "plan = reserved_plan" by (simp add: reserved_create_action_plan)
  have each: "list_all (declared_or_identity (features_config (PreProcessor_init reserved_config)))
                reserved_plan"
    using plan(4) unfolding p by (simp only: list_all_iff)
  have d1: "distinct [''a'']" by simp
  have c0: "map step_count encoded_config = [0]"
    by (simp add: count_defs encoded_config_def)
  have m0: "max_steps (features_config (PreProcessor_init encoded_config)) = 0"
    by (simp add: count_defs PreProcessor_init_def encoded_config_def)
  from action_plan_is_grid [OF encoded_interpret_config encoded_feature_names d1]
  obtain plan0 where plan0:
    "create_action_plan (snd (interpret_config (PreProcessor_init encoded_config))) = Inr plan0"
    "map plan_key plan0
       = List.product [0 ..< max_steps (features_config (PreProcessor_init encoded_config))]
           [0 ..< length (features_config (PreProcessor_init encoded_config))]"
    by blast
  from plan0(2) have "plan0 = []" by (simp add: m0)
  with plan0(1) have e: "create_action_plan (snd (interpret_config (PreProcessor_init encoded_config)))
                           = Inr []" by simp
  from plan(1,2,3) each reserved_interpret_config reserved_feature_names d c m n
    encoded_interpret_config encoded_feature_names c0 m0 e
  show ?thesis unfolding p by simp
qed

section \<open>Inactive features\<close>

lemma fit_success:
  assumes "fit L s0 X0 = (Inr (), s)"
  shows "\<exists>s1. interpret_config s0 = (Inr (), s1) \<and> feature_names s = feature_names s1
           \<and> feature_active s = feature_active s1 \<and> feature_types s = feature_types s1"
proof -
  obtain r s1 where i: "interpret_config s0 = (r, s1)" by (cases "interpret_config s0")
  show ?thesis
  proof (cases r)
    case (Inl e)
    with i assms show ?thesis by (simp add: fit_def)
  next
    case (Inr u)
    with i assms show ?thesis
      by (auto simp: fit_def Let_def split: sum.splits)
  qed
qed

lemma select_columns_names: "select_columns X features = Inr Xf \<Longrightarrow> map fst Xf = features"
proof (induction features arbitrary: Xf)
  case Nil
  then show ?case by (simp add: select_columns_def)
next
  case (Cons f features)
  from Cons.prems obtain col rest where "Xf = (f, col) # rest"
    "select_columns X features = Inr rest"
    by (auto simp: select_columns_def split: option.splits sum.splits)
  with Cons.IH show ?case by simp
qed

lemma dataframe_transformer_names:
  "dataframe_transformer X f = Inr Y \<Longrightarrow> map fst Y = map fst X"
  by (auto simp: dataframe_transformer_def split: sum.splits if_splits)

lemma precast_names:
  assumes "precast s X = Inr Y" "feature_active s = Some act"
  shows "map fst Y = map fst (filter (\<lambda>x. py_truthy (snd x)) act)"
proof -
  from assms obtain Xf p where
    "select_columns X (map fst (filter (\<lambda>x. py_truthy (snd x)) act)) = Inr Xf"
    "dataframe_transformer Xf (raw_output (pipeline_transform p)) = Inr Y"
    by (auto simp: precast_def get_active_features_def split: sum.splits option.splits)
  then show ?thesis using select_columns_names dataframe_transformer_names by metis
qed

text \<open>
  The failure of C2 is not particular to one input: after any successful \<open>fit\<close>, if a
  feature is inactive then \<open>transform\<close> raises on every table.
\<close>

lemma inactive_feature_always_breaks_transform:
  assumes "fit L s0 X0 = (Inr (), s)" "feature_active s = Some act" "(n, v) \<in> set act"
    "\<not> py_truthy v"
  shows "\<exists>e. transform L s X = Inl e"
proof (rule ccontr)
  assume "\<not> (\<exists>e. transform L s X = Inl e)"
  then obtain Z where Z: "transform L s X = Inr Z" by (cases "transform L s X") auto
  from fit_success [OF assms(1)] obtain s1 where s1: "interpret_config s0 = (Inr (), s1)"
    "feature_names s = feature_names s1" "feature_active s = feature_active s1"
    "feature_types s = feature_types s1" by blast
  from interpret_config_success(2) [OF s1(1)] assms(2) s1(3) obtain names tys where
    names: "map_err config_name (features_config s1) = Inr names" and
    act: "dict_comprehension ''active'' (features_config s1) [] = Inr act" and
    tys: "dict_comprehension ''type'' (features_config s1) [] = Inr tys"
         "feature_types s1 = Some tys"
    by auto
  have ka: "fst ` set act = set names" using dict_comprehension_keys [OF act names] by simp
  have kt: "fst ` set tys = set names" using dict_comprehension_keys [OF tys(1) names] by simp
  have da: "distinct (map fst act)" using dict_comprehension_distinct [OF act] by simp
  have dt: "distinct (map fst tys)" using dict_comprehension_distinct [OF tys(1)] by simp
  from assms(3) ka kt obtain t where t: "(n, t) \<in> set tys" by force
  from Z obtain Y where Y: "precast s X = Inr Y" "cast_columns L s Y = Inr Z"
    by (auto simp: transform_def split: sum.splits)
  then have "cast_loop L tys Y = Inr Z" using tys(2) s1(4) by (simp add: cast_columns_def)
  from cast_loop_entry [OF this dt t] obtain col where "map_of Y n = Some col" by blast
  then have "n \<in> fst ` set Y" by (metis domI dom_map_of_conv_image_fst)
  then have "n \<in> set (map fst (filter (\<lambda>x. py_truthy (snd x)) act))"
    using precast_names [OF Y(1) assms(2)] by (metis set_map)
  then obtain v' where v': "(n, v') \<in> set act" "py_truthy v'" by auto
  with assms(3) da have "v' = v" by (meson eq_key_imp_eq_value)
  with v'(2) assms(4) show False by simp
qed

end
